theory Spec2Isabelle
  imports Main "HOL-Library.FSet" "HOL-Library.Char_ord" "HOL-Library.List_Lexorder"
begin

section \<open>The Natlink back-end of Dragonfly: engine and grammar wrapper\<close>

text \<open>
  A shallow embedding of \<^verbatim>\<open>dragonfly/engines/backend_natlink/engine.py\<close>.
  The classes \<^verbatim>\<open>NatlinkEngine\<close> and \<^verbatim>\<open>GrammarWrapper\<close> drive a closed native
  module (\<^verbatim>\<open>natlink\<close>) and a few collaborators of the surrounding package. The embedding
  keeps the Python control flow and makes explicit what the code leaves implicit:
  \<^item> every call that leaves this file is an entry of a history, with its outcome;
  \<^item> whether such a call raises is decided by an oracle over that history, so that a
    theorem holds for every native engine, not for one guess at its behaviour;
  \<^item> a Python method that mutates its object and may raise returns the outcome
    (\<open>Inl\<close> the exception) together with the state reached, since the mutation made
    before a \<^verbatim>\<open>raise\<close> stays.
\<close>

subsection \<open>Exceptions\<close>

datatype exn =
    NatError string
  | MimicFailed string
  | EngineError string
  | MimicFailure string
  | KeyError string
  | TypeError string
  | ValueError string
  | UnicodeError string
  | WinError string
  | AttributeError string
  | OtherError string

text \<open>
  In the engine, whose \<^verbatim>\<open>__init__\<close> sets \<^verbatim>\<open>self.natlink\<close> to the native module,
  \<^verbatim>\<open>except self.natlink.NatError\<close> catches the module's base exception and its
  subclasses; \<^verbatim>\<open>MimicFailed\<close> is one of them.
\<close>

fun is_NatError :: "exn \<Rightarrow> bool" where
  "is_NatError (NatError m) = True"
| "is_NatError (MimicFailed m) = True"
| "is_NatError e = False"

text \<open>\<^verbatim>\<open>except Exception\<close>: every exception of this model is an \<^verbatim>\<open>Exception\<close>.\<close>

fun str_exn :: "exn \<Rightarrow> string" where
  "str_exn (NatError m) = m"
| "str_exn (MimicFailed m) = m"
| "str_exn (EngineError m) = m"
| "str_exn (MimicFailure m) = m"
| "str_exn (KeyError m) = m"
| "str_exn (TypeError m) = m"
| "str_exn (ValueError m) = m"
| "str_exn (UnicodeError m) = m"
| "str_exn (WinError m) = m"
| "str_exn (AttributeError m) = m"
| "str_exn (OtherError m) = m"

subsection \<open>Words and tokens\<close>

text \<open>
  A Python string is text (\<^verbatim>\<open>text_type\<close>) or bytes (\<^verbatim>\<open>binary_type\<close>); iterating
  a Python 3 bytes object yields integers.
\<close>

datatype token = Text string | Bytes string | IntTok nat

subsection \<open>The world outside\<close>

text \<open>
  The calls that leave this file: into the native module and its grammar objects, into
  the window and grammar classes of the package, into the engine's timer manager, the
  thread library and the file system. \<open>SetBeginCallback True\<close> registers a callback,
  \<open>SetBeginCallback False\<close> registers \<^verbatim>\<open>None\<close>.
\<close>

datatype call =
    GramObj
  | SetBeginCallback bool
  | SetResultsCallback bool
  | SetHypothesisCallback bool
  | Load string bool bool
  | Activate string int
  | Deactivate string
  | EmptyList string
  | AppendList string string
  | NatConnect bool
  | NatDisconnect
  | RecognitionMimic "token list"
  | GrammarUnload string
  | GetMatchingWindows string
  | WindowClose nat
  | CreateTimer
  | TimerStop
  | ThreadStart
  | StopEventSet
  | GetWave
  | WriteWav string "nat list"
  | AppendTsv string string

type_synonym event = "call \<times> exn option"

text \<open>
  The oracle: given the calls made so far (with their outcomes) and the next call,
  \<open>None\<close> when the call returns and \<open>Some e\<close> when it raises \<open>e\<close>.
\<close>

type_synonym env = "event list \<Rightarrow> call \<Rightarrow> exn option"

datatype level = Debug | Warning | Error | Exception

record world =
  calls :: "event list"
  log :: "(level \<times> string) list"

definition ext_call :: "env \<Rightarrow> call \<Rightarrow> world \<Rightarrow> exn option \<times> world" where
  "ext_call orc c wd =
     (orc (calls wd) c, wd\<lparr>calls := calls wd @ [(c, orc (calls wd) c)]\<rparr>)"

definition log_msg :: "level \<Rightarrow> string \<Rightarrow> world \<Rightarrow> world" where
  "log_msg l m wd = wd\<lparr>log := log wd @ [(l, m)]\<rparr>"

subsection \<open>GrammarWrapper\<close>

text \<open>
  \<^verbatim>\<open>
  def __init__(self, grammar, grammar_object, engine):
      GrammarWrapperBase.__init__(self, grammar, engine)
      self.grammar_object = grammar_object
      self.rule_names = None
      self.active_rules_set = set()
      self.hwnd = 0
      self.beginning = False
  \<close>
  The grammar object is the native side; its calls go to the history of the world.
  \<^verbatim>\<open>rule_names\<close> is \<open>None\<close> until \<^verbatim>\<open>_load_grammar\<close> stores the compiler's list.
\<close>

record wrapper =
  grammar_name :: string
  rule_names :: "string list option"
  active_rules_set :: "string fset"
  hwnd :: int
  beginning :: bool

definition GrammarWrapper :: "string \<Rightarrow> wrapper" where
  "GrammarWrapper gname =
     \<lparr>grammar_name = gname, rule_names = None, active_rules_set = {||},
      hwnd = 0, beginning = False\<rparr>"

text \<open>
  \<^verbatim>\<open>
  def activate_rule(self, rule_name):
      self.active_rules_set.add(rule_name)
      if self.beginning: return
      grammar_object = self.grammar_object
      try:
          grammar_object.activate(rule_name, self.hwnd)
      except self.natlink.NatError:
          grammar_object.deactivate(rule_name)
          grammar_object.activate(rule_name, self.hwnd)
  \<close>
  When the call in the \<^verbatim>\<open>try\<close> raises, Python evaluates the expression of the
  \<^verbatim>\<open>except\<close> clause, \<^verbatim>\<open>self.natlink.NatError\<close>, to compare the exception with it. The
  wrapper has no attribute \<^verbatim>\<open>natlink\<close>: its \<^verbatim>\<open>__init__\<close> above sets none, the engine
  holds the native module and the wrapper reaches the engine as \<^verbatim>\<open>self.engine\<close>. So the
  evaluation raises \<^verbatim>\<open>AttributeError\<close>, whatever the exception of the call was, and that
  error leaves the method. The two calls of the handler are never made.
\<close>

definition no_natlink :: string where
  "no_natlink = [CHR 0x27] @ ''GrammarWrapper'' @ [CHR 0x27] @ '' object has no attribute ''
                  @ [CHR 0x27] @ ''natlink'' @ [CHR 0x27]"

definition activate_rule ::
  "env \<Rightarrow> string \<Rightarrow> wrapper \<times> world \<Rightarrow> (exn + unit) \<times> wrapper \<times> world" where
  "activate_rule orc rule_name s =
     (let w = (fst s)\<lparr>active_rules_set := finsert rule_name (active_rules_set (fst s))\<rparr>;
          wd = snd s
      in if beginning w then (Inr (), w, wd)
         else
           (case ext_call orc (Activate rule_name (hwnd w)) wd of
              (None, wd1) \<Rightarrow> (Inr (), w, wd1)
            | (Some e, wd1) \<Rightarrow> (Inl (AttributeError no_natlink), w, wd1)))"

text \<open>
  \<^verbatim>\<open>
  def deactivate_rule(self, rule_name):
      self.active_rules_set.remove(rule_name)
      grammar_object = self.grammar_object
      grammar_object.deactivate(rule_name)
  \<close>
  \<^verbatim>\<open>set.remove\<close> raises \<^verbatim>\<open>KeyError\<close> on a missing element.
\<close>

definition deactivate_rule ::
  "env \<Rightarrow> string \<Rightarrow> wrapper \<times> world \<Rightarrow> (exn + unit) \<times> wrapper \<times> world" where
  "deactivate_rule orc rule_name s =
     (if rule_name |\<notin>| active_rules_set (fst s) then (Inl (KeyError rule_name), s)
      else
        (let w = (fst s)\<lparr>active_rules_set := active_rules_set (fst s) |-| {|rule_name|}\<rparr>
         in case ext_call orc (Deactivate rule_name) (snd s) of
              (None, wd1) \<Rightarrow> (Inr (), w, wd1)
            | (Some e, wd1) \<Rightarrow> (Inl e, w, wd1)))"

text \<open>
  \<^verbatim>\<open>
  def map_word(word, encoding=getpreferredencoding(do_setlocale=False)):
      if isinstance(word, text_type):
          return word
      elif isinstance(word, binary_type):
          return word.decode(encoding)
      return word
  \<close>
  The codec is a parameter: \<open>decode b = None\<close> when the bytes are not valid in the
  locale's encoding and \<^verbatim>\<open>decode\<close> raises.
\<close>

fun map_word :: "(string \<Rightarrow> string option) \<Rightarrow> token \<Rightarrow> exn + token" where
  "map_word decode (Text s) = Inr (Text s)"
| "map_word decode (Bytes b) =
     (case decode b of None \<Rightarrow> Inl (UnicodeError b) | Some s \<Rightarrow> Inr (Text s))"
| "map_word decode (IntTok n) = Inr (IntTok n)"

text \<open>
  The grammar's begin-of-utterance handler (\<^verbatim>\<open>grammar.process_begin\<close>, in the package's
  grammar class) is not part of this file. It is a parameter: the script of the requests
  it makes to its wrapper, in order, which are activations, deactivations, or an exception
  of its own. The first exception ends the handler.
\<close>

datatype request = ReqActivate string | ReqDeactivate string | ReqRaise exn

fun process_begin ::
  "env \<Rightarrow> request list \<Rightarrow> wrapper \<times> world \<Rightarrow> (exn + unit) \<times> wrapper \<times> world" where
  "process_begin orc [] s = (Inr (), s)"
| "process_begin orc (ReqActivate r # rs) s =
     (case activate_rule orc r s of
        (Inl e, s') \<Rightarrow> (Inl e, s')
      | (Inr u, s') \<Rightarrow> process_begin orc rs s')"
| "process_begin orc (ReqDeactivate r # rs) s =
     (case deactivate_rule orc r s of
        (Inl e, s') \<Rightarrow> (Inl e, s')
      | (Inr u, s') \<Rightarrow> process_begin orc rs s')"
| "process_begin orc (ReqRaise e # rs) s = (Inl e, s)"

text \<open>
  The loop that ends \<^verbatim>\<open>begin_callback\<close>:
  \<^verbatim>\<open>
  for rule_name in self.active_rules_set:
      self.activate_rule(rule_name)
  \<close>
  It runs over the names in the order the set yields them, which is the list given
  here; an exception of \<^verbatim>\<open>activate_rule\<close> ends it.
\<close>

fun activate_rules ::
  "env \<Rightarrow> string list \<Rightarrow> wrapper \<times> world \<Rightarrow> (exn + unit) \<times> wrapper \<times> world" where
  "activate_rules orc [] s = (Inr (), s)"
| "activate_rules orc (r # rs) s =
     (case activate_rule orc r s of
        (Inl e, s') \<Rightarrow> (Inl e, s')
      | (Inr u, s') \<Rightarrow> activate_rules orc rs s')"

text \<open>
  \<^verbatim>\<open>
  def begin_callback(self, module_info):
      self.beginning = True
      executable, title, handle = tuple(map_word(word)
                                        for word in module_info)
      self.hwnd = handle
      try:
          self.grammar.process_begin(executable, title, handle)
      except:
          message = "Exception occurred during process_begin() call."
          self._log.exception(message)
      self.beginning = False
      for rule_name in self.active_rules_set:
          self.activate_rule(rule_name)
  \<close>
  The native module passes the module information as a triple of executable, window
  title and window handle; the handle is an integer, which \<^verbatim>\<open>map_word\<close> returns as it
  is. A Python set yields its elements in an order of its own, which depends on the
  hashes of the names and differs from one process to the next. The order is the parameter
  \<open>order\<close>: the list in which a set yields its elements. \<open>enumerates\<close> says that the
  list has every element of the set once and nothing else, which is all that is known of
  it.
\<close>

definition enumerates :: "(string fset \<Rightarrow> string list) \<Rightarrow> string fset \<Rightarrow> bool" where
  "enumerates order S = (distinct (order S) \<and> set (order S) = fset S)"

definition begin_callback ::
  "env \<Rightarrow> (string \<Rightarrow> string option) \<Rightarrow> (token \<Rightarrow> token \<Rightarrow> int \<Rightarrow> request list) \<Rightarrow>
   (string fset \<Rightarrow> string list) \<Rightarrow>
   token \<times> token \<times> int \<Rightarrow> wrapper \<times> world \<Rightarrow> (exn + unit) \<times> wrapper \<times> world" where
  "begin_callback orc decode handler order module_info s =
     (let w1 = (fst s)\<lparr>beginning := True\<rparr> in
      case map_word decode (fst module_info) of
        Inl e \<Rightarrow> (Inl e, w1, snd s)
      | Inr executable \<Rightarrow>
          (case map_word decode (fst (snd module_info)) of
             Inl e \<Rightarrow> (Inl e, w1, snd s)
           | Inr title \<Rightarrow>
               (let handle = snd (snd module_info);
                    w2 = w1\<lparr>hwnd := handle\<rparr>;
                    r = process_begin orc (handler executable title handle) (w2, snd s);
                    w3 = fst (snd r);
                    wd3 = (case fst r of
                             Inl e \<Rightarrow> log_msg Exception
                                        ''Exception occurred during process_begin() call.''
                                        (snd (snd r))
                           | Inr u \<Rightarrow> snd (snd r));
                    w4 = w3\<lparr>beginning := False\<rparr>
                in activate_rules orc (order (active_rules_set w4)) (w4, wd3))))"

subsection \<open>TimerThread\<close>

text \<open>
  \<^verbatim>\<open>
  class TimerThread(Thread):
      def __init__(self, engine):
          Thread.__init__(self)
          self._stop_event = Event()
          self.daemon = True
          self._timer = None
          self._engine = engine
      def start(self):
          if self._timer is None:
              def timer_function(): ...
              self._timer = self._engine.create_timer(timer_function, 0.025)
          Thread.start(self)
      def _stop_timer(self):
          if self._timer:
              self._timer.stop()
              self._timer = None
      def stop(self):
          self._stop_event.set()
          self._stop_timer()
  \<close>
  \<open>timer\<close> tells whether \<^verbatim>\<open>_timer\<close> holds a timer, \<open>stop_event\<close> whether the event is
  set; setting the event is the call \<open>StopEventSet\<close> into the thread library, the signal
  that ends the thread. The body of the thread (\<^verbatim>\<open>run\<close>) executes concurrently and is not
  modelled.
\<close>

record TimerThread =
  stop_event :: bool
  timer :: bool

definition TimerThread_init :: TimerThread where
  "TimerThread_init = \<lparr>stop_event = False, timer = False\<rparr>"

definition TimerThread_start ::
  "env \<Rightarrow> TimerThread \<times> world \<Rightarrow> (exn + unit) \<times> TimerThread \<times> world" where
  "TimerThread_start orc s =
     (if \<not> timer (fst s) then
        (case ext_call orc CreateTimer (snd s) of
           (Some e, wd1) \<Rightarrow> (Inl e, fst s, wd1)
         | (None, wd1) \<Rightarrow>
             (case ext_call orc ThreadStart wd1 of
                (Some e, wd2) \<Rightarrow> (Inl e, (fst s)\<lparr>timer := True\<rparr>, wd2)
              | (None, wd2) \<Rightarrow> (Inr (), (fst s)\<lparr>timer := True\<rparr>, wd2)))
      else
        (case ext_call orc ThreadStart (snd s) of
           (Some e, wd2) \<Rightarrow> (Inl e, fst s, wd2)
         | (None, wd2) \<Rightarrow> (Inr (), fst s, wd2)))"

definition stop_timer ::
  "env \<Rightarrow> TimerThread \<times> world \<Rightarrow> (exn + unit) \<times> TimerThread \<times> world" where
  "stop_timer orc s =
     (if timer (fst s) then
        (case ext_call orc TimerStop (snd s) of
           (Some e, wd1) \<Rightarrow> (Inl e, fst s, wd1)
         | (None, wd1) \<Rightarrow> (Inr (), (fst s)\<lparr>timer := False\<rparr>, wd1))
      else (Inr (), s))"

definition TimerThread_stop ::
  "env \<Rightarrow> TimerThread \<times> world \<Rightarrow> (exn + unit) \<times> TimerThread \<times> world" where
  "TimerThread_stop orc s =
     (case ext_call orc StopEventSet (snd s) of
        (Some e, wd1) \<Rightarrow> (Inl e, fst s, wd1)
      | (None, wd1) \<Rightarrow> stop_timer orc ((fst s)\<lparr>stop_event := True\<rparr>, wd1))"

subsection \<open>NatlinkEngine\<close>

text \<open>
  The fields of the engine that the methods below read or write. \<open>engine_str\<close> is the
  string form of the engine, which the base class defines and the log messages print.
\<close>

record engine =
  engine_str :: string
  timer_thread :: "TimerThread option"
  retain_dir :: "string option"

text \<open>
  The grammar as \<^verbatim>\<open>_load_grammar\<close> sees it: its name, its string form (what \<^verbatim>\<open>%s\<close>
  prints), and whether it has the two optional recognition methods.
\<close>

record grammar =
  name :: string
  grammar_str :: string
  has_process_recognition_other :: bool
  has_process_recognition_failure :: bool

text \<open>
  \<^verbatim>\<open>
  def apply_threading_fix(self):
      if self._timer_thread is None:
          self._timer_thread = TimerThread(self)
          self._timer_thread.start()
  \<close>
\<close>

definition apply_threading_fix ::
  "env \<Rightarrow> engine \<times> world \<Rightarrow> (exn + unit) \<times> engine \<times> world" where
  "apply_threading_fix orc s =
     (case timer_thread (fst s) of
        None \<Rightarrow>
          (case TimerThread_start orc (TimerThread_init, snd s) of
             (r, tt, wd1) \<Rightarrow> (r, (fst s)\<lparr>timer_thread := Some tt\<rparr>, wd1))
      | Some tt \<Rightarrow> (Inr (), s))"

text \<open>
  \<^verbatim>\<open>
  def connect(self):
      self.natlink.natConnect(True)
      self.apply_threading_fix()
  \<close>
\<close>

definition connect :: "env \<Rightarrow> engine \<times> world \<Rightarrow> (exn + unit) \<times> engine \<times> world" where
  "connect orc s =
     (case ext_call orc (NatConnect True) (snd s) of
        (Some e, wd1) \<Rightarrow> (Inl e, fst s, wd1)
      | (None, wd1) \<Rightarrow> apply_threading_fix orc (fst s, wd1))"

text \<open>A run of outside calls, one after the other; the first that raises ends it.\<close>

fun ext_calls :: "env \<Rightarrow> call list \<Rightarrow> world \<Rightarrow> exn option \<times> world" where
  "ext_calls orc [] wd = (None, wd)"
| "ext_calls orc (c # cs) wd =
     (case ext_call orc c wd of
        (Some e, wd1) \<Rightarrow> (Some e, wd1)
      | (None, wd1) \<Rightarrow> ext_calls orc cs wd1)"

text \<open>
  \<^verbatim>\<open>
  def _load_grammar(self, grammar):
      self._log.debug("Engine %s: loading grammar %s." % (self, grammar.name))
      grammar_object = self.natlink.GramObj()
      wrapper = GrammarWrapper(grammar, grammar_object, self)
      grammar_object.setBeginCallback(wrapper.begin_callback)
      grammar_object.setResultsCallback(wrapper.results_callback)
      grammar_object.setHypothesisCallback(None)
      c = NatlinkCompiler()
      (compiled_grammar, rule_names) = c.compile_grammar(grammar)
      wrapper.rule_names = rule_names
      all_results = (hasattr(grammar, "process_recognition_other")
                     or hasattr(grammar, "process_recognition_failure"))
      hypothesis = False
      attempt_connect = False
      if not rule_names: return wrapper
      try:
          grammar_object.load(compiled_grammar, all_results, hypothesis)
      except self.natlink.NatError as e:
          if (str(e) == "Calling GramObj.load is not allowed before"
                        " calling natConnect"):
              attempt_connect = True
          else:
              self._log.exception("Failed to load grammar %s: %s." % (grammar, e))
              raise EngineError("Failed to load grammar %s: %s." % (grammar, e))
      if attempt_connect:
          self.connect()
          try:
              grammar_object.load(compiled_grammar, all_results, hypothesis)
          except self.natlink.NatError as e:
              self._log.exception("Failed to load grammar %s: %s." % (grammar, e))
              raise EngineError("Failed to load grammar %s: %s." % (grammar, e))
      self.apply_threading_fix()
      return wrapper
  \<close>
  The compiler is another file of the package; it is the parameter \<open>compile\<close>, which
  returns the compiled grammar and the list of rule names, or raises.
\<close>

definition not_connected :: string where
  "not_connected = ''Calling GramObj.load is not allowed before calling natConnect''"

definition load_failed :: "grammar \<Rightarrow> exn \<Rightarrow> string" where
  "load_failed g e = ''Failed to load grammar '' @ grammar_str g @ '': '' @ str_exn e @ ''.''"

definition loading_msg :: "engine \<Rightarrow> grammar \<Rightarrow> string" where
  "loading_msg eng g = ''Engine '' @ engine_str eng @ '': loading grammar '' @ name g @ ''.''"

definition registration :: "call list" where
  "registration =
     [GramObj, SetBeginCallback True, SetResultsCallback True, SetHypothesisCallback False]"

text \<open>The last two statements: the threading fix, then \<^verbatim>\<open>return wrapper\<close>.\<close>

definition fix_and_return ::
  "env \<Rightarrow> wrapper \<Rightarrow> engine \<times> world \<Rightarrow> (exn + wrapper) \<times> engine \<times> world" where
  "fix_and_return orc w s =
     (case apply_threading_fix orc s of
        (Inl e, s') \<Rightarrow> (Inl e, s')
      | (Inr u, s') \<Rightarrow> (Inr w, s'))"

definition load_grammar ::
  "env \<Rightarrow> (grammar \<Rightarrow> exn + string \<times> string list) \<Rightarrow> grammar \<Rightarrow> engine \<times> world \<Rightarrow>
   (exn + wrapper) \<times> engine \<times> world" where
  "load_grammar orc compile g s =
     (let eng = fst s;
          wd0 = log_msg Debug (loading_msg eng g) (snd s)
      in case ext_calls orc registration wd0 of
           (Some e, wd1) \<Rightarrow> (Inl e, eng, wd1)
         | (None, wd1) \<Rightarrow>
             (case compile g of
                Inl e \<Rightarrow> (Inl e, eng, wd1)
              | Inr (compiled_grammar, names) \<Rightarrow>
                  (let wrapper = (GrammarWrapper (name g))\<lparr>rule_names := Some names\<rparr>;
                       all_results = (has_process_recognition_other g
                                      \<or> has_process_recognition_failure g);
                       hypothesis = False
                   in if names = [] then (Inr wrapper, eng, wd1)
                      else
                        (case ext_call orc (Load compiled_grammar all_results hypothesis) wd1 of
                           (None, wd2) \<Rightarrow> fix_and_return orc wrapper (eng, wd2)
                         | (Some e, wd2) \<Rightarrow>
                             if \<not> is_NatError e then (Inl e, eng, wd2)
                             else if str_exn e = not_connected then
                               (case connect orc (eng, wd2) of
                                  (Inl e', s3) \<Rightarrow> (Inl e', s3)
                                | (Inr u, s3) \<Rightarrow>
                                    (case ext_call orc
                                            (Load compiled_grammar all_results hypothesis)
                                            (snd s3) of
                                       (None, wd4) \<Rightarrow> fix_and_return orc wrapper (fst s3, wd4)
                                     | (Some e2, wd4) \<Rightarrow>
                                         if is_NatError e2 then
                                           (Inl (EngineError (load_failed g e2)), fst s3,
                                            log_msg Exception (load_failed g e2) wd4)
                                         else (Inl e2, fst s3, wd4)))
                             else
                               (Inl (EngineError (load_failed g e)), eng,
                                log_msg Exception (load_failed g e) wd2)))))"

text \<open>
  \<^verbatim>\<open>
  def update_list(self, lst, grammar):
      wrapper = self._get_grammar_wrapper(grammar)
      if not wrapper:
          return
      grammar_object = wrapper.grammar_object
      n = lst.name
      f = grammar_object.appendList
      grammar_object.emptyList(n)
      [f(n, word) for word in lst.get_list_items()]
  \<close>
  The lookup of the grammar's wrapper belongs to the base class; its result is the
  parameter \<open>wrapper\<close>, \<open>None\<close> for a grammar that is not loaded.
\<close>

record word_list =
  list_name :: string
  get_list_items :: "string list"

definition update_list ::
  "env \<Rightarrow> wrapper option \<Rightarrow> word_list \<Rightarrow> world \<Rightarrow> (exn + unit) \<times> world" where
  "update_list orc wrapper lst wd =
     (case wrapper of
        None \<Rightarrow> (Inr (), wd)
      | Some w \<Rightarrow>
          (let n = list_name lst in
           case ext_call orc (EmptyList n) wd of
             (Some e, wd1) \<Rightarrow> (Inl e, wd1)
           | (None, wd1) \<Rightarrow>
               (case ext_calls orc (map (AppendList n) (get_list_items lst)) wd1 of
                  (Some e, wd2) \<Rightarrow> (Inl e, wd2)
                | (None, wd2) \<Rightarrow> (Inr (), wd2))))"

text \<open>
  What a native list holds after a history, reading \<^verbatim>\<open>emptyList\<close> and \<^verbatim>\<open>appendList\<close>
  as their names say; a call that raised has changed nothing.
\<close>

fun list_step :: "string \<Rightarrow> string list \<Rightarrow> event \<Rightarrow> string list" where
  "list_step n xs (EmptyList m, None) = (if m = n then [] else xs)"
| "list_step n xs (AppendList m w, None) = (if m = n then xs @ [w] else xs)"
| "list_step n xs ev = xs"

definition native_list :: "event list \<Rightarrow> string \<Rightarrow> string list" where
  "native_list evs n = foldl (list_step n) [] evs"

text \<open>
  \<^verbatim>\<open>
  def mimic(self, words):
      if isinstance(words, string_types):
          words = words.split()
      try:
          prepared_words = []
          if PY2:
              encoding = getpreferredencoding()
              for word in words:
                  if isinstance(word, text_type):
                      word = word.encode(encoding)
                  prepared_words.append(word)
          else:
              for word in words:
                  prepared_words.append(word)
          if len(prepared_words) == 0:
              raise TypeError("empty list or string")
      except Exception as e:
          raise MimicFailure("Invalid mimic input %r: %s." % (words, e))
      try:
          self.natlink.recognitionMimic(prepared_words)
      except self.natlink.MimicFailed:
          raise MimicFailure("No matching rule found for words %r." % (prepared_words,))
  \<close>
  The argument is one object or a sequence of objects. \<^verbatim>\<open>string_types\<close> is text and
  bytes under Python 2 and text alone under Python 3. Which characters \<^verbatim>\<open>split\<close> takes
  for whitespace depends on the string type; the predicate is the parameter \<open>ws\<close>. The
  codec is the parameter \<open>enc\<close> (\<open>None\<close> when encoding raises), and \<open>repr\<close> prints
  the words for the message.
\<close>

datatype mimic_input = Single token | Seq "token list"

fun string_types :: "bool \<Rightarrow> token \<Rightarrow> bool" where
  "string_types py2 (Text s) = True"
| "string_types py2 (Bytes b) = py2"
| "string_types py2 (IntTok n) = False"

text \<open>
  \<^verbatim>\<open>str.split()\<close> without a separator: the maximal runs of characters that are not
  whitespace, in order. \<open>cur\<close> is the run being read.
\<close>

fun split_from :: "(char \<Rightarrow> bool) \<Rightarrow> string \<Rightarrow> string \<Rightarrow> string list" where
  "split_from ws cur [] = (if cur = [] then [] else [cur])"
| "split_from ws cur (c # cs) =
     (if ws c then (if cur = [] then split_from ws [] cs else cur # split_from ws [] cs)
      else split_from ws (cur @ [c]) cs)"

definition py_split :: "(char \<Rightarrow> bool) \<Rightarrow> string \<Rightarrow> string list" where
  "py_split ws s = split_from ws [] s"

text \<open>The first statement: a string is replaced by the list of its words.\<close>

fun split_words :: "(char \<Rightarrow> bool) \<Rightarrow> bool \<Rightarrow> mimic_input \<Rightarrow> mimic_input" where
  "split_words ws py2 (Single (Text s)) = Seq (map Text (py_split ws s))"
| "split_words ws py2 (Single (Bytes b)) =
     (if py2 then Seq (map Bytes (py_split ws b)) else Single (Bytes b))"
| "split_words ws py2 inp = inp"

text \<open>
  \<^verbatim>\<open>for word in words\<close>: a sequence yields its elements, Python 3 bytes yield their
  integers, text yields its characters, and a number is not iterable.
\<close>

fun iterate :: "mimic_input \<Rightarrow> exn + token list" where
  "iterate (Seq xs) = Inr xs"
| "iterate (Single (Bytes b)) = Inr (map (\<lambda>c. IntTok (of_char c)) b)"
| "iterate (Single (Text s)) = Inr (map (\<lambda>c. Text [c]) s)"
| "iterate (Single (IntTok n)) = Inl (TypeError ''object is not iterable'')"

text \<open>The Python 2 loop: text words are encoded, the others are taken as they are.\<close>

fun encode_words :: "(string \<Rightarrow> string option) \<Rightarrow> token list \<Rightarrow> exn + token list" where
  "encode_words enc [] = Inr []"
| "encode_words enc (Text s # xs) =
     (case enc s of
        None \<Rightarrow> Inl (UnicodeError s)
      | Some b \<Rightarrow>
          (case encode_words enc xs of Inl e \<Rightarrow> Inl e | Inr ys \<Rightarrow> Inr (Bytes b # ys)))"
| "encode_words enc (x # xs) =
     (case encode_words enc xs of Inl e \<Rightarrow> Inl e | Inr ys \<Rightarrow> Inr (x # ys))"

text \<open>The first \<^verbatim>\<open>try\<close> block: the prepared words, or the exception it raised.\<close>

definition prepare ::
  "bool \<Rightarrow> (string \<Rightarrow> string option) \<Rightarrow> mimic_input \<Rightarrow> exn + token list" where
  "prepare py2 enc words =
     (case iterate words of
        Inl e \<Rightarrow> Inl e
      | Inr xs \<Rightarrow>
          (case (if py2 then encode_words enc xs else Inr xs) of
             Inl e \<Rightarrow> Inl e
           | Inr prepared_words \<Rightarrow>
               if length prepared_words = 0 then Inl (TypeError ''empty list or string'')
               else Inr prepared_words))"

definition invalid_input :: "string \<Rightarrow> exn \<Rightarrow> string" where
  "invalid_input r e = ''Invalid mimic input '' @ r @ '': '' @ str_exn e @ ''.''"

definition no_matching_rule :: "string \<Rightarrow> string" where
  "no_matching_rule r = ''No matching rule found for words '' @ r @ ''.''"

definition mimic ::
  "env \<Rightarrow> (char \<Rightarrow> bool) \<Rightarrow> bool \<Rightarrow> (string \<Rightarrow> string option) \<Rightarrow> (mimic_input \<Rightarrow> string) \<Rightarrow>
   mimic_input \<Rightarrow> world \<Rightarrow> (exn + unit) \<times> world" where
  "mimic orc ws py2 enc repr inp wd =
     (let words = split_words ws py2 inp in
      case prepare py2 enc words of
        Inl e \<Rightarrow> (Inl (MimicFailure (invalid_input (repr words) e)), wd)
      | Inr prepared_words \<Rightarrow>
          (case ext_call orc (RecognitionMimic prepared_words) wd of
             (None, wd1) \<Rightarrow> (Inr (), wd1)
           | (Some (MimicFailed m), wd1) \<Rightarrow>
               (Inl (MimicFailure (no_matching_rule (repr (Seq prepared_words)))), wd1)
           | (Some e, wd1) \<Rightarrow> (Inl e, wd1)))"

text \<open>
  \<^verbatim>\<open>
  def disconnect(self):
      for grammar in self.grammars:
          grammar.unload()
      from dragonfly import Window
      target_title = "Natlink / Python Subsystem"
      for window in Window.get_matching_windows(title=target_title):
          if window.is_visible and window.pid == os.getpid():
              try:
                  window.close()
              except pywintypes.error:
                  pass
              break
      if self._timer_thread:
          self._timer_thread.stop()
          self._timer_thread = None
      self.natlink.natDisconnect()
  \<close>
  The grammars of the engine (\<^verbatim>\<open>self.grammars\<close>, a property of the base class), their
  \<^verbatim>\<open>unload\<close> and the window class are not part of this file. They are parameters: the
  grammars are the list \<open>gs\<close> of their names and the windows that match the title are the
  list \<open>wins\<close>; unloading a grammar, asking for the windows and closing one are outside
  calls. \<open>pid\<close> is the identifier of the current process.
\<close>

record window =
  window_handle :: nat
  is_visible :: bool
  window_pid :: nat

definition target_title :: string where
  "target_title = ''Natlink / Python Subsystem''"

text \<open>The loop over the windows: the first visible window of this process is closed.\<close>

definition close_dialog ::
  "env \<Rightarrow> window list \<Rightarrow> nat \<Rightarrow> world \<Rightarrow> exn option \<times> world" where
  "close_dialog orc wins pid wd =
     (case List.find (\<lambda>w. is_visible w \<and> window_pid w = pid) wins of
        None \<Rightarrow> (None, wd)
      | Some w \<Rightarrow>
          (case ext_call orc (WindowClose (window_handle w)) wd of
             (Some (WinError m), wd1) \<Rightarrow> (None, wd1)
           | r \<Rightarrow> r))"

definition disconnect ::
  "env \<Rightarrow> string list \<Rightarrow> window list \<Rightarrow> nat \<Rightarrow> engine \<times> world \<Rightarrow>
   (exn + unit) \<times> engine \<times> world" where
  "disconnect orc gs wins pid s =
     (case ext_calls orc (map GrammarUnload gs) (snd s) of
        (Some e, wd1) \<Rightarrow> (Inl e, fst s, wd1)
      | (None, wd1) \<Rightarrow>
          (case ext_call orc (GetMatchingWindows target_title) wd1 of
             (Some e, wd2) \<Rightarrow> (Inl e, fst s, wd2)
           | (None, wd2) \<Rightarrow>
               (case close_dialog orc wins pid wd2 of
                  (Some e, wd3) \<Rightarrow> (Inl e, fst s, wd3)
                | (None, wd3) \<Rightarrow>
                    (case (case timer_thread (fst s) of
                             None \<Rightarrow> (Inr (), fst s, wd3)
                           | Some tt \<Rightarrow>
                               (case TimerThread_stop orc (tt, wd3) of
                                  (Inl e, tt', wd4) \<Rightarrow>
                                    (Inl e, (fst s)\<lparr>timer_thread := Some tt'\<rparr>, wd4)
                                | (Inr u, tt', wd4) \<Rightarrow>
                                    (Inr (), (fst s)\<lparr>timer_thread := None\<rparr>, wd4))) of
                       (Inl e, s4) \<Rightarrow> (Inl e, s4)
                     | (Inr u, eng4, wd4) \<Rightarrow>
                         (case ext_call orc NatDisconnect wd4 of
                            (Some e, wd5) \<Rightarrow> (Inl e, eng4, wd5)
                          | (None, wd5) \<Rightarrow> (Inr (), eng4, wd5))))))"

subsection \<open>Retaining audio\<close>

text \<open>
  \<^verbatim>\<open>
  def _retain_audio(self, words, results, rule_name):
      retain_dir = self.engine._retain_dir
      if retain_dir and not os.path.isdir(retain_dir):
          self.engine._log.warning(
              "Audio was not retained because '%s' was not a "
              "directory" % retain_dir
          )
      elif retain_dir:
          try:
              audio = results.getWave()
              if len(audio) > 0:
                  now = datetime.now()
                  filename = ("retain_%s.wav"
                              % now.strftime("%Y-%m-%d_%H-%M-%S_%f"))
                  wav_path = os.path.join(retain_dir, filename)
                  with open(wav_path, "wb") as f:
                      f.write(audio)
                  text = ' '.join(words)
                  audio_length = float(len(audio) / 2) / 11025
                  tsv_path = os.path.join(retain_dir, "retain.tsv")
                  with open(tsv_path, "a") as tsv_file:
                      tsv_file.write('\t'.join([
                          filename, text_type(audio_length),
                          self.grammar.name, rule_name, text
                      ]) + '\n')
          except:
              self._log.exception("Exception retaining audio")
  \<close>
  What the platform decides is a parameter: which paths are directories, how two paths
  are joined, the time stamp of the file name, and the printed length of the audio as a
  function of its number of bytes (a floating-point number in the source). \<open>wave\<close> is the
  audio that \<^verbatim>\<open>getWave\<close> returns when it returns. A string is true in a condition when it
  is not empty.
\<close>

record platform =
  isdir :: "string \<Rightarrow> bool"
  path_join :: "string \<Rightarrow> string \<Rightarrow> string"
  now_stamp :: string
  length_str :: "nat \<Rightarrow> string"

fun join_with :: "string \<Rightarrow> string list \<Rightarrow> string" where
  "join_with sep [] = []"
| "join_with sep [x] = x"
| "join_with sep (x # y # ys) = x @ sep @ join_with sep (y # ys)"

definition not_a_directory :: "string \<Rightarrow> string" where
  "not_a_directory d = ''Audio was not retained because '' @ [CHR 0x27] @ d @ [CHR 0x27]
                         @ '' was not a directory''"

text \<open>The body of the \<^verbatim>\<open>try\<close>: \<open>Some e\<close> when it raised \<open>e\<close>.\<close>

definition capture ::
  "env \<Rightarrow> platform \<Rightarrow> nat list \<Rightarrow> string list \<Rightarrow> string \<Rightarrow> wrapper \<Rightarrow> string \<Rightarrow> world \<Rightarrow>
   exn option \<times> world" where
  "capture orc pf wave words rule_name w d wd =
     (case ext_call orc GetWave wd of
        (Some e, wd1) \<Rightarrow> (Some e, wd1)
      | (None, wd1) \<Rightarrow>
          if length wave > 0 then
            (let filename = ''retain_'' @ now_stamp pf @ ''.wav'';
                 wav_path = path_join pf d filename
             in case ext_call orc (WriteWav wav_path wave) wd1 of
                  (Some e, wd2) \<Rightarrow> (Some e, wd2)
                | (None, wd2) \<Rightarrow>
                    (let text = join_with '' '' words;
                         tsv_path = path_join pf d ''retain.tsv''
                     in ext_call orc
                          (AppendTsv tsv_path
                             (join_with [CHR 0x09]
                                [filename, length_str pf (length wave), grammar_name w,
                                 rule_name, text] @ [CHR 0x0A]))
                          wd2))
          else (None, wd1))"

definition retain_audio ::
  "env \<Rightarrow> platform \<Rightarrow> nat list \<Rightarrow> string list \<Rightarrow> string \<Rightarrow> wrapper \<Rightarrow> engine \<Rightarrow> world \<Rightarrow>
   (exn + unit) \<times> world" where
  "retain_audio orc pf wave words rule_name w eng wd =
     (case retain_dir eng of
        None \<Rightarrow> (Inr (), wd)
      | Some d \<Rightarrow>
          if d \<noteq> [] \<and> \<not> isdir pf d then (Inr (), log_msg Warning (not_a_directory d) wd)
          else if d \<noteq> [] then
            (case capture orc pf wave words rule_name w d wd of
               (Some e, wd1) \<Rightarrow> (Inr (), log_msg Exception ''Exception retaining audio'' wd1)
             | (None, wd1) \<Rightarrow> (Inr (), wd1))
          else (Inr (), wd))"

text \<open>
  \<^verbatim>\<open>
  def _process_final_rule(self, state, words, results, dispatch_other, rule, *args):
      self._retain_audio(words, results, rule.name)
      GrammarWrapperBase._process_final_rule(self, state, words, results,
                                             dispatch_other, rule, *args)
  \<close>
  The method of the base class is the parameter \<open>base\<close>.
\<close>

definition process_final_rule ::
  "env \<Rightarrow> platform \<Rightarrow> nat list \<Rightarrow> string list \<Rightarrow> string \<Rightarrow> (world \<Rightarrow> (exn + unit) \<times> world) \<Rightarrow>
   wrapper \<Rightarrow> engine \<Rightarrow> world \<Rightarrow> (exn + unit) \<times> world" where
  "process_final_rule orc pf wave words rule_name base w eng wd =
     (case retain_audio orc pf wave words rule_name w eng wd of
        (Inl e, wd1) \<Rightarrow> (Inl e, wd1)
      | (Inr u, wd1) \<Rightarrow> base wd1)"

section \<open>Observations and concrete runs\<close>

subsection \<open>Observations on the history\<close>

text \<open>
  The calls a run has added to the history, and the number of native activations of a
  rule for a window that returned (a call that raised has activated nothing).
\<close>

definition new_calls :: "world \<Rightarrow> world \<Rightarrow> event list" where
  "new_calls wd wd' = drop (length (calls wd)) (calls wd')"

definition activations :: "event list \<Rightarrow> string \<Rightarrow> int \<Rightarrow> nat" where
  "activations evs r h = count_list evs (Activate r h, None)"

text \<open>The native load calls of a history, with their outcomes.\<close>

fun is_Load :: "event \<Rightarrow> bool" where
  "is_Load (Load c a h, out) = True"
| "is_Load ev = False"

definition load_calls :: "event list \<Rightarrow> event list" where
  "load_calls evs = filter is_Load evs"

text \<open>The calls that write to the retain directory, and whether a call of a history raised.\<close>

fun is_write :: "event \<Rightarrow> bool" where
  "is_write (WriteWav path audio, out) = True"
| "is_write (AppendTsv path line, out) = True"
| "is_write ev = False"

definition raised :: "event list \<Rightarrow> bool" where
  "raised evs = (\<exists>ev \<in> set evs. snd ev \<noteq> None)"

text \<open>
  The calls of \<^verbatim>\<open>disconnect\<close> when nothing stops it: what stopping the keep-alive thread
  calls, what the loop over the windows calls, and the whole sequence.
\<close>

definition thread_calls :: "TimerThread option \<Rightarrow> call list" where
  "thread_calls t =
     (case t of
        None \<Rightarrow> []
      | Some tt \<Rightarrow> if timer tt then [StopEventSet, TimerStop] else [StopEventSet])"

definition dialog_calls :: "window list \<Rightarrow> nat \<Rightarrow> call list" where
  "dialog_calls wins pid =
     (case List.find (\<lambda>w. is_visible w \<and> window_pid w = pid) wins of
        None \<Rightarrow> []
      | Some w \<Rightarrow> [WindowClose (window_handle w)])"

definition disconnect_calls ::
  "string list \<Rightarrow> window list \<Rightarrow> nat \<Rightarrow> TimerThread option \<Rightarrow> call list" where
  "disconnect_calls gs wins pid t =
     map GrammarUnload gs @ [GetMatchingWindows target_title] @ dialog_calls wins pid
       @ thread_calls t @ [NatDisconnect]"

text \<open>The characters of a string, and the constructor of its type.\<close>

fun chars :: "token \<Rightarrow> string" where
  "chars (Text s) = s"
| "chars (Bytes b) = b"
| "chars (IntTok n) = []"

fun same_kind :: "token \<Rightarrow> string \<Rightarrow> token" where
  "same_kind (Bytes b) = Bytes"
| "same_kind t = Text"

subsection \<open>A session of a wrapper\<close>

text \<open>
  A native engine that refuses to activate rule \<open>a\<close> for window 7 until the rule has
  been deactivated, as an engine does for a rule that is still active for the window
  before; a native engine that knows no rule, so that activation and deactivation raise;
  a wrapper with rule \<open>a\<close> active and one with the rules \<open>a\<close> and \<open>b\<close> active; a handler
  that makes no request; two orders in which a set may yield its names, ascending and
  descending; and a world in which nothing has happened yet.
\<close>

definition example_env :: env where
  "example_env t c =
     (if c = Activate ''a'' 7 \<and> (Deactivate ''a'', None) \<notin> set t
      then Some (NatError ''rule is already active'') else None)"

definition env_unknown_rule :: env where
  "env_unknown_rule t c =
     (case c of
        Activate r h \<Rightarrow> Some (NatError ''unknown rule'')
      | Deactivate r \<Rightarrow> Some (NatError ''unknown rule'')
      | _ \<Rightarrow> None)"

definition example_wrapper :: wrapper where
  "example_wrapper =
     \<lparr>grammar_name = ''g'', rule_names = Some [''a'', ''b'', ''c''],
      active_rules_set = {|''a''|}, hwnd = 0, beginning = False\<rparr>"

definition active_wrapper :: wrapper where
  "active_wrapper =
     \<lparr>grammar_name = ''g'', rule_names = Some [''a'', ''b'', ''c''],
      active_rules_set = {|''a'', ''b''|}, hwnd = 0, beginning = False\<rparr>"

definition idle_handler :: "token \<Rightarrow> token \<Rightarrow> int \<Rightarrow> request list" where
  "idle_handler executable title handle = []"

definition ascending :: "string fset \<Rightarrow> string list" where
  "ascending S = sorted_list_of_fset S"

definition descending :: "string fset \<Rightarrow> string list" where
  "descending S = rev (sorted_list_of_fset S)"

definition example_world :: world where
  "example_world = \<lparr>calls = [], log = []\<rparr>"

subsection \<open>Engines for loading\<close>

text \<open>
  A native engine that refuses every load with a given message, and one that refuses a
  load until \<^verbatim>\<open>natConnect\<close> has returned; a grammar, a compiler that finds one rule in it
  and one that finds none; an engine without keep-alive thread; and \<open>registered\<close>, the
  world after the grammar object has been created and its callbacks registered.
\<close>

definition env_refuse :: "string \<Rightarrow> env" where
  "env_refuse m t c = (case c of Load cg a h \<Rightarrow> Some (NatError m) | _ \<Rightarrow> None)"

definition env_connect :: env where
  "env_connect t c =
     (case c of
        Load cg a h \<Rightarrow>
          if (NatConnect True, None) \<in> set t then None else Some (NatError not_connected)
      | _ \<Rightarrow> None)"

definition example_grammar :: grammar where
  "example_grammar =
     \<lparr>name = ''g'', grammar_str = ''Grammar(g)'',
      has_process_recognition_other = False, has_process_recognition_failure = False\<rparr>"

definition example_compile :: "grammar \<Rightarrow> exn + string \<times> string list" where
  "example_compile g = Inr (''compiled'', [''a''])"

definition example_compile_empty :: "grammar \<Rightarrow> exn + string \<times> string list" where
  "example_compile_empty g = Inr (''compiled'', [])"

definition example_engine :: engine where
  "example_engine = \<lparr>engine_str = ''NatlinkEngine()'', timer_thread = None, retain_dir = None\<rparr>"

definition registered :: world where
  "registered =
     \<lparr>calls = map (\<lambda>c. (c, None)) registration,
      log = [(Debug, loading_msg example_engine example_grammar)]\<rparr>"

subsection \<open>A list, and a history that has filled it before\<close>

definition example_list :: word_list where
  "example_list = \<lparr>list_name = ''colours'', get_list_items = [''red'', ''green'', ''red'']\<rparr>"

definition stale_world :: world where
  "stale_world =
     \<lparr>calls = [(EmptyList ''colours'', None), (AppendList ''colours'' ''blue'', None),
               (AppendList ''other'' ''x'', None)],
      log = []\<rparr>"

subsection \<open>An engine to disconnect\<close>

text \<open>
  Closing a window raises \<^verbatim>\<open>pywintypes.error\<close> and every other call returns; the engine
  has a keep-alive thread with its timer; of the two windows with the title, the second
  belongs to the current process, 42.
\<close>

definition env_close_fails :: env where
  "env_close_fails t c =
     (case c of WindowClose k \<Rightarrow> Some (WinError ''invalid window handle'') | _ \<Rightarrow> None)"

definition running_engine :: engine where
  "running_engine =
     \<lparr>engine_str = ''NatlinkEngine()'',
      timer_thread = Some \<lparr>stop_event = False, timer = True\<rparr>, retain_dir = None\<rparr>"

definition example_windows :: "window list" where
  "example_windows =
     [\<lparr>window_handle = 3, is_visible = True, window_pid = 7\<rparr>,
      \<lparr>window_handle = 5, is_visible = True, window_pid = 42\<rparr>]"

subsection \<open>Words to mimic\<close>

text \<open>
  Space, tabulator and line feed as whitespace; a native engine that finds no rule for
  any words; and a printer of words that prints them all alike.
\<close>

definition blank :: "char \<Rightarrow> bool" where
  "blank c = (c = CHR '' '' \<or> c = CHR 0x09 \<or> c = CHR 0x0A)"

definition env_no_rule :: env where
  "env_no_rule t c =
     (case c of RecognitionMimic ps \<Rightarrow> Some (MimicFailed ''no rule'') | _ \<Rightarrow> None)"

definition example_repr :: "mimic_input \<Rightarrow> string" where
  "example_repr inp = ''words''"

subsection \<open>Retention on a small platform\<close>

text \<open>
  A world in which every call returns and one in which the audio file cannot be written;
  a platform whose only directory is \<open>retain\<close>; an engine with a retain directory; and a
  method of the base class that logs its dispatch.
\<close>

definition env_quiet :: env where
  "env_quiet t c = None"

definition env_disk_full :: env where
  "env_disk_full t c =
     (case c of WriteWav path audio \<Rightarrow> Some (OtherError ''No space left on device'')
      | _ \<Rightarrow> None)"

definition example_platform :: platform where
  "example_platform =
     \<lparr>isdir = (\<lambda>d. d = ''retain''), path_join = (\<lambda>a b. a @ ''/'' @ b),
      now_stamp = ''2024-01-01_00-00-00_000000'', length_str = (\<lambda>n. ''9.07e-05'')\<rparr>"

definition retaining_engine :: "string \<Rightarrow> engine" where
  "retaining_engine d =
     \<lparr>engine_str = ''NatlinkEngine()'', timer_thread = None, retain_dir = Some d\<rparr>"

definition example_base :: "world \<Rightarrow> (exn + unit) \<times> world" where
  "example_base wd = (Inr (), log_msg Debug ''dispatched'' wd)"

section \<open>Properties\<close>

subsection \<open>The history only grows\<close>

lemma ext_call_calls:
  "calls (snd (ext_call orc c wd)) = calls wd @ [(c, orc (calls wd) c)]"
  by (simp add: ext_call_def)

lemma ext_call_fst: "fst (ext_call orc c wd) = orc (calls wd) c"
  by (simp add: ext_call_def)

lemma ext_call_log: "log (snd (ext_call orc c wd)) = log wd"
  by (simp add: ext_call_def)

lemma activate_rule_beginning:
  "beginning (fst s) \<Longrightarrow>
   activate_rule orc r s =
     (Inr (), (fst s)\<lparr>active_rules_set := finsert r (active_rules_set (fst s))\<rparr>, snd s)"
  by (simp add: activate_rule_def Let_def)

lemma activate_rule_wrapper:
  "fst (snd (activate_rule orc r s)) =
     (fst s)\<lparr>active_rules_set := finsert r (active_rules_set (fst s))\<rparr>"
  by (simp add: activate_rule_def Let_def split: prod.splits option.splits)


lemma activations_append [simp]:
  "activations (xs @ ys) r h = activations xs r h + activations ys r h"
  by (simp add: activations_def)

lemma activations_Nil [simp]: "activations [] r h = 0"
  by (simp add: activations_def)

lemma new_calls_self [simp]: "new_calls wd wd = []"
  by (simp add: new_calls_def)

lemma new_calls_append:
  "calls wd' = calls wd @ evs \<Longrightarrow> new_calls wd wd' = evs"
  by (simp add: new_calls_def)

lemma activate_rule_extends:
  "\<exists>evs. calls (snd (snd (activate_rule orc r s))) = calls (snd s) @ evs"
  by (simp add: activate_rule_def ext_call_def Let_def split: prod.splits option.splits)

lemma deactivate_rule_effect:
  "\<exists>evs. calls (snd (snd (deactivate_rule orc r s))) = calls (snd s) @ evs \<and>
         (\<forall>q h. activations evs q h = 0)"
  by (simp add: deactivate_rule_def ext_call_def Let_def activations_def split: prod.splits option.splits)

lemma deactivate_rule_flags:
  "beginning (fst (snd (deactivate_rule orc r s))) = beginning (fst s) \<and>
   hwnd (fst (snd (deactivate_rule orc r s))) = hwnd (fst s)"
  by (simp add: deactivate_rule_def ext_call_def Let_def split: prod.splits option.splits)

lemma process_begin_effect:
  "beginning (fst s) \<Longrightarrow>
   beginning (fst (snd (process_begin orc rs s))) \<and>
   hwnd (fst (snd (process_begin orc rs s))) = hwnd (fst s) \<and>
   (\<exists>evs. calls (snd (snd (process_begin orc rs s))) = calls (snd s) @ evs \<and>
          (\<forall>q h. activations evs q h = 0))"
proof (induction orc rs s rule: process_begin.induct)
  case (1 orc s)
  then show ?case by simp
next
  case (2 orc r rs s)
  have a: "activate_rule orc r s =
     (Inr (), (fst s)\<lparr>active_rules_set := finsert r (active_rules_set (fst s))\<rparr>, snd s)"
    using "2.prems" by (rule activate_rule_beginning)
  show ?case using 2 a by simp
next
  case (3 orc r rs s)
  obtain res s' where d: "deactivate_rule orc r s = (res, s')"
    by (cases "deactivate_rule orc r s") auto
  from deactivate_rule_effect [of orc r s] d obtain evs where
    e: "calls (snd s') = calls (snd s) @ evs" "\<forall>q h. activations evs q h = 0"
    by auto
  from deactivate_rule_flags [of orc r s] d "3.prems" have
    f: "beginning (fst s')" "hwnd (fst s') = hwnd (fst s)" by auto
  show ?case
  proof (cases res)
    case (Inl e)
    then show ?thesis using d e f by auto
  next
    case (Inr u)
    from "3.IH" [OF d [symmetric] Inr f(1)] obtain evs' where
      g: "beginning (fst (snd (process_begin orc rs s')))"
         "hwnd (fst (snd (process_begin orc rs s'))) = hwnd (fst s')"
         "calls (snd (snd (process_begin orc rs s'))) = calls (snd s') @ evs'"
         "\<forall>q h. activations evs' q h = 0" by auto
    show ?thesis using d Inr e f g by auto
  qed
next
  case (4 orc e rs s)
  then show ?case by simp
qed

lemma activate_rule_native:
  "\<not> beginning (fst s) \<Longrightarrow>
   \<exists>evs. calls (snd (snd (activate_rule orc r s))) = calls (snd s) @ evs \<and>
     (\<forall>q h. activations evs q h =
        (if q = r \<and> h = hwnd (fst s) \<and> fst (activate_rule orc r s) = Inr () then 1 else 0))"
  by (auto simp add: activate_rule_def ext_call_def Let_def activations_def
           split: prod.splits option.splits)

lemma activate_rule_same:
  "r |\<in>| active_rules_set (fst s) \<Longrightarrow> fst (snd (activate_rule orc r s)) = fst s"
  by (simp add: activate_rule_wrapper finsert_absorb)

lemma activate_rules_effect:
  "\<not> beginning (fst s) \<Longrightarrow> distinct rs \<Longrightarrow> set rs \<subseteq> fset (active_rules_set (fst s)) \<Longrightarrow>
   fst (snd (activate_rules orc rs s)) = fst s \<and>
   (\<exists>evs. calls (snd (snd (activate_rules orc rs s))) = calls (snd s) @ evs \<and>
      (\<forall>q h. activations evs q h \<le> (if q \<in> set rs \<and> h = hwnd (fst s) then 1 else 0)) \<and>
      (fst (activate_rules orc rs s) = Inr () \<longrightarrow>
         (\<forall>q h. activations evs q h = (if q \<in> set rs \<and> h = hwnd (fst s) then 1 else 0))))"
proof (induction rs arbitrary: s)
  case Nil
  then show ?case by simp
next
  case (Cons r rs)
  obtain res s' where a: "activate_rule orc r s = (res, s')"
    by (cases "activate_rule orc r s") auto
  have mem: "r |\<in>| active_rules_set (fst s)" using Cons.prems(3) by simp
  have same: "fst s' = fst s" using activate_rule_same [OF mem, of orc] a by simp
  from activate_rule_native [OF Cons.prems(1), of orc r] a obtain evs where
    e: "calls (snd s') = calls (snd s) @ evs"
       "\<forall>q h. activations evs q h = (if q = r \<and> h = hwnd (fst s) \<and> res = Inr () then 1 else 0)"
    by auto
  show ?case
  proof (cases res)
    case (Inl x)
    then show ?thesis using a e same by auto
  next
    case (Inr u)
    have p: "\<not> beginning (fst s')" "distinct rs" "set rs \<subseteq> fset (active_rules_set (fst s'))"
      using Cons.prems same by auto
    from Cons.IH [OF p] obtain evs' where
      g: "fst (snd (activate_rules orc rs s')) = fst s'"
         "calls (snd (snd (activate_rules orc rs s'))) = calls (snd s') @ evs'"
         "\<forall>q h. activations evs' q h \<le> (if q \<in> set rs \<and> h = hwnd (fst s') then 1 else 0)"
         "fst (activate_rules orc rs s') = Inr () \<longrightarrow>
            (\<forall>q h. activations evs' q h = (if q \<in> set rs \<and> h = hwnd (fst s') then 1 else 0))"
      by blast
    have nr: "r \<notin> set rs" using Cons.prems(2) by simp
    have c: "calls (snd (snd (activate_rules orc (r # rs) s))) = calls (snd s) @ (evs @ evs')"
      using a Inr e(1) g(2) by simp
    have w: "fst (snd (activate_rules orc (r # rs) s)) = fst s"
      using a Inr g(1) same by simp
    have f: "fst (activate_rules orc (r # rs) s) = fst (activate_rules orc rs s')"
      using a Inr by simp
    have le: "\<forall>q h. activations (evs @ evs') q h \<le>
                (if q \<in> set (r # rs) \<and> h = hwnd (fst s) then 1 else 0)"
    proof (intro allI)
      fix q h
      show "activations (evs @ evs') q h \<le> (if q \<in> set (r # rs) \<and> h = hwnd (fst s) then 1 else 0)"
        using e(2) [rule_format, of q h] g(3) [rule_format, of q h] nr same Inr
        by (auto split: if_splits)
    qed
    have eq: "fst (activate_rules orc rs s') = Inr () \<longrightarrow>
               (\<forall>q h. activations (evs @ evs') q h =
                  (if q \<in> set (r # rs) \<and> h = hwnd (fst s) then 1 else 0))"
    proof (intro impI allI)
      fix q h
      assume ok: "fst (activate_rules orc rs s') = Inr ()"
      show "activations (evs @ evs') q h = (if q \<in> set (r # rs) \<and> h = hwnd (fst s) then 1 else 0)"
        using e(2) [rule_format, of q h] g(4) ok nr same Inr
        by (auto split: if_splits)
    qed
    have eq': "fst (activate_rules orc (r # rs) s) = Inr () \<longrightarrow>
               (\<forall>q h. activations (evs @ evs') q h =
                  (if q \<in> set (r # rs) \<and> h = hwnd (fst s) then 1 else 0))"
      using eq f by simp
    show ?thesis
      by (rule conjI [OF w]) (rule exI [of _ "evs @ evs'"], intro conjI c le eq')
  qed
qed

lemma enumerates_ascending: "enumerates ascending S"
  by (simp add: enumerates_def ascending_def sorted_list_of_fset.rep_eq)

lemma enumerates_descending: "enumerates descending S"
  by (simp add: enumerates_def descending_def sorted_list_of_fset.rep_eq)

lemma log_msg_calls [simp]: "calls (log_msg l m wd) = calls wd"
  by (simp add: log_msg_def)

lemma begin_callback_decode_error:
  "map_word decode ex = Inl e \<Longrightarrow>
   begin_callback orc decode handler order (ex, ti, h) (w, wd) =
     (Inl e, w\<lparr>beginning := True\<rparr>, wd)"
  "map_word decode ex = Inr x \<Longrightarrow> map_word decode ti = Inl e \<Longrightarrow>
   begin_callback orc decode handler order (ex, ti, h) (w, wd) =
     (Inl e, w\<lparr>beginning := True\<rparr>, wd)"
  by (simp_all add: begin_callback_def)

lemma begin_callback_run:
  assumes en: "\<And>S. enumerates order S"
    and ex: "map_word decode ex = Inr executable"
    and ti: "map_word decode ti = Inr title"
    and run: "begin_callback orc decode handler order (ex, ti, h) (w, wd) = (res, w', wd')"
  shows "w' = (fst (snd (process_begin orc (handler executable title h)
                          (w\<lparr>beginning := True, hwnd := h\<rparr>, wd))))\<lparr>beginning := False\<rparr> \<and>
         hwnd w' = h \<and>
         (\<exists>evs. calls wd' = calls wd @ evs \<and>
            (\<forall>q h'. activations evs q h' \<le> (if q |\<in>| active_rules_set w' \<and> h' = h then 1 else 0)) \<and>
            (res = Inr () \<longrightarrow>
               (\<forall>q h'. activations evs q h' =
                  (if q |\<in>| active_rules_set w' \<and> h' = h then 1 else 0))))"
proof -
  define s2 where "s2 = (w\<lparr>beginning := True, hwnd := h\<rparr>, wd)"
  define r where "r = process_begin orc (handler executable title h) s2"
  define w4 where "w4 = (fst (snd r))\<lparr>beginning := False\<rparr>"
  define wd3 where "wd3 = (case fst r of
       Inl e \<Rightarrow> log_msg Exception ''Exception occurred during process_begin() call.'' (snd (snd r))
     | Inr u \<Rightarrow> snd (snd r))"
  define rs where "rs = order (active_rules_set w4)"
  have unfold: "begin_callback orc decode handler order (ex, ti, h) (w, wd) =
                  activate_rules orc rs (w4, wd3)"
    unfolding rs_def wd3_def w4_def r_def s2_def
    using ex ti by (simp add: begin_callback_def Let_def)
  have en4: "distinct rs" "set rs = fset (active_rules_set w4)"
    using en [of "active_rules_set w4"] by (simp_all add: enumerates_def rs_def)
  have b2: "beginning (fst s2)" by (simp add: s2_def)
  from process_begin_effect [OF b2, of orc "handler executable title h"] obtain evs1 where
    p: "hwnd (fst (snd r)) = h" "calls (snd (snd r)) = calls wd @ evs1"
       "\<forall>q h'. activations evs1 q h' = 0"
    by (auto simp: r_def s2_def)
  have c3: "calls wd3 = calls wd @ evs1"
    using p(2) by (simp add: wd3_def split: sum.splits)
  have h4: "hwnd w4 = h" using p(1) by (simp add: w4_def)
  have pre: "\<not> beginning (fst (w4, wd3))" "distinct rs"
            "set rs \<subseteq> fset (active_rules_set (fst (w4, wd3)))"
    using en4 by (simp_all add: w4_def)
  from activate_rules_effect [OF pre, of orc] obtain evs2 where
    a: "fst (snd (activate_rules orc rs (w4, wd3))) = w4"
       "calls (snd (snd (activate_rules orc rs (w4, wd3)))) = calls wd3 @ evs2"
       "\<forall>q h'. activations evs2 q h' \<le> (if q \<in> set rs \<and> h' = hwnd w4 then 1 else 0)"
       "fst (activate_rules orc rs (w4, wd3)) = Inr () \<longrightarrow>
          (\<forall>q h'. activations evs2 q h' = (if q \<in> set rs \<and> h' = hwnd w4 then 1 else 0))"
    by auto
  have mem: "\<And>q. q \<in> set rs \<longleftrightarrow> q |\<in>| active_rules_set w4"
    using en4(2) by simp
  have w': "w' = w4" and wd': "calls wd' = calls wd @ (evs1 @ evs2)"
    and res: "res = fst (activate_rules orc rs (w4, wd3))"
    using run unfold a(1,2) c3 by auto
  have le: "\<forall>q h'. activations (evs1 @ evs2) q h' \<le>
              (if q |\<in>| active_rules_set w' \<and> h' = h then 1 else 0)"
    using a(3) p(3) mem h4 w' by simp
  have eq: "res = Inr () \<longrightarrow> (\<forall>q h'. activations (evs1 @ evs2) q h' =
              (if q |\<in>| active_rules_set w' \<and> h' = h then 1 else 0))"
    using a(4) p(3) mem h4 w' res by simp
  have first: "w' = (fst (snd (process_begin orc (handler executable title h)
                          (w\<lparr>beginning := True, hwnd := h\<rparr>, wd))))\<lparr>beginning := False\<rparr>"
    using w' by (simp add: w4_def r_def s2_def)
  have second: "hwnd w' = h" using w' h4 by simp
  show ?thesis
    by (intro conjI first second exI [of _ "evs1 @ evs2"] wd' le eq)
qed

subsection \<open>Deferred activation\<close>

text \<open>
  What the deferral does for every native engine and every order of the set. While the
  begin-phase flag is set, \<^verbatim>\<open>activate_rule\<close> only records the name: the active set
  gains it and the history of outside calls is unchanged. Whatever the outcome of
  \<^verbatim>\<open>begin_callback\<close>, among the calls it has added no name has more than one native
  activation that returned, and none but a name of the active set, for the new handle,
  has any. When \<^verbatim>\<open>begin_callback\<close> returns, the flag is cleared, the active set is the
  one the handler left, and every name of it has exactly one.
\<close>

lemma begin_callback_activations:
  assumes en: "\<And>S. enumerates order S"
  shows
  "(beginning wb \<longrightarrow>
      activate_rule orc r (wb, wdb) =
        (Inr (), wb\<lparr>active_rules_set := finsert r (active_rules_set wb)\<rparr>, wdb)) \<and>
   (begin_callback orc decode handler order (ex, ti, h) (w, wd) = (Inr (), w', wd') \<longrightarrow>
      \<not> beginning w' \<and> hwnd w' = h \<and>
      (\<exists>executable title.
          map_word decode ex = Inr executable \<and> map_word decode ti = Inr title \<and>
          active_rules_set w' =
            active_rules_set (fst (snd (process_begin orc (handler executable title h)
                                          (w\<lparr>beginning := True, hwnd := h\<rparr>, wd))))) \<and>
      (\<forall>q h'. activations (new_calls wd wd') q h' =
                 (if q |\<in>| active_rules_set w' \<and> h' = h then 1 else 0))) \<and>
   (begin_callback orc decode handler order (ex, ti, h) (w, wd) = (res, w', wd') \<longrightarrow>
      (\<forall>q h'. activations (new_calls wd wd') q h' \<le>
                 (if q |\<in>| active_rules_set w' \<and> h' = h then 1 else 0)))"
proof (intro conjI impI)
  assume "beginning wb"
  then show "activate_rule orc r (wb, wdb) =
        (Inr (), wb\<lparr>active_rules_set := finsert r (active_rules_set wb)\<rparr>, wdb)"
    using activate_rule_beginning [of "(wb, wdb)" orc r] by simp
next
  assume run: "begin_callback orc decode handler order (ex, ti, h) (w, wd) = (Inr (), w', wd')"
  obtain executable where ex: "map_word decode ex = Inr executable"
    using run begin_callback_decode_error(1) [of decode ex _ orc handler order ti h w wd]
    by (cases "map_word decode ex") auto
  obtain title where ti: "map_word decode ti = Inr title"
    using run ex
      begin_callback_decode_error(2) [of decode ex executable ti _ orc handler order h w wd]
    by (cases "map_word decode ti") auto
  from begin_callback_run [OF en ex ti run] obtain evs where
    r: "w' = (fst (snd (process_begin orc (handler executable title h)
                          (w\<lparr>beginning := True, hwnd := h\<rparr>, wd))))\<lparr>beginning := False\<rparr>"
       "hwnd w' = h" "calls wd' = calls wd @ evs"
       "\<forall>q h'. activations evs q h' = (if q |\<in>| active_rules_set w' \<and> h' = h then 1 else 0)"
    by auto
  have nc: "new_calls wd wd' = evs" using r(3) by (rule new_calls_append)
  show "\<not> beginning w'" using r(1) by simp
  show "hwnd w' = h" by (rule r(2))
  show "\<exists>executable title.
          map_word decode ex = Inr executable \<and> map_word decode ti = Inr title \<and>
          active_rules_set w' =
            active_rules_set (fst (snd (process_begin orc (handler executable title h)
                                          (w\<lparr>beginning := True, hwnd := h\<rparr>, wd))))"
    using ex ti r(1) by simp
  show "\<forall>q h'. activations (new_calls wd wd') q h' =
                 (if q |\<in>| active_rules_set w' \<and> h' = h then 1 else 0)"
    using r(4) nc by simp
next
  assume run: "begin_callback orc decode handler order (ex, ti, h) (w, wd) = (res, w', wd')"
  show "\<forall>q h'. activations (new_calls wd wd') q h' \<le>
                 (if q |\<in>| active_rules_set w' \<and> h' = h then 1 else 0)"
  proof (cases "map_word decode ex")
    case (Inl e)
    then show ?thesis
      using run begin_callback_decode_error(1) [OF Inl, of orc handler order ti h w wd]
      by simp
  next
    case ex: (Inr executable)
    show ?thesis
    proof (cases "map_word decode ti")
      case (Inl e)
      then show ?thesis
        using run begin_callback_decode_error(2) [OF ex Inl, of orc handler order h w wd]
        by simp
    next
      case ti: (Inr title)
      from begin_callback_run [OF en ex ti run] obtain evs where
        r: "calls wd' = calls wd @ evs"
           "\<forall>q h'. activations evs q h' \<le> (if q |\<in>| active_rules_set w' \<and> h' = h then 1 else 0)"
        by auto
      show ?thesis using r(2) new_calls_append [OF r(1)] by simp
    qed
  qed
qed

text \<open>
  A native activation that raises is not recovered: the \<^verbatim>\<open>except\<close> clause of
  \<^verbatim>\<open>activate_rule\<close> raises \<^verbatim>\<open>AttributeError\<close> itself, no deactivation and no second
  activation follow, and the call made is the only one.
\<close>

lemma activate_rule_refused:
  "\<not> beginning (fst s) \<Longrightarrow> orc (calls (snd s)) (Activate r (hwnd (fst s))) = Some e \<Longrightarrow>
   activate_rule orc r s =
     (Inl (AttributeError no_natlink),
      (fst s)\<lparr>active_rules_set := finsert r (active_rules_set (fst s))\<rparr>,
      (snd s)\<lparr>calls := calls (snd s) @ [(Activate r (hwnd (fst s)), Some e)]\<rparr>)"
  by (simp add: activate_rule_def ext_call_def Let_def)

text \<open>
  Claim C1. After the handler of \<^verbatim>\<open>begin_callback\<close> every name of the active set is to
  be activated natively, once, for the new window handle; the comment before the loop
  says so, and the handler of \<^verbatim>\<open>activate_rule\<close> is there to deactivate and activate
  again a rule that the native engine refuses. The code does not reach that handler.
  Here the rules \<open>a\<close> and \<open>b\<close> are active, the callback comes for window 7, and the engine
  refuses to activate \<open>a\<close> because it is still active for the window before. The
  \<^verbatim>\<open>except\<close> clause raises \<^verbatim>\<open>AttributeError\<close>, which leaves the loop and
  \<^verbatim>\<open>begin_callback\<close>. When the set yields \<open>a\<close> first, the only call is the refused
  activation and neither rule is activated; when it yields \<open>b\<close> first, \<open>b\<close> is activated
  and \<open>a\<close> is not. In neither order is \<open>a\<close> deactivated or activated again.
\<close>

theorem begin_callback_refused_activation:
  "ascending (active_rules_set active_wrapper) = [''a'', ''b''] \<and>
   descending (active_rules_set active_wrapper) = [''b'', ''a''] \<and>
   begin_callback example_env Some idle_handler ascending
       (Text ''app.exe'', Text ''title'', 7) (active_wrapper, example_world) =
     (Inl (AttributeError no_natlink), active_wrapper\<lparr>hwnd := 7\<rparr>,
      \<lparr>calls = [(Activate ''a'' 7, Some (NatError ''rule is already active''))],
       log = []\<rparr>) \<and>
   activations [(Activate ''a'' 7, Some (NatError ''rule is already active''))] ''a'' 7 = 0 \<and>
   activations [(Activate ''a'' 7, Some (NatError ''rule is already active''))] ''b'' 7 = 0 \<and>
   begin_callback example_env Some idle_handler descending
       (Text ''app.exe'', Text ''title'', 7) (active_wrapper, example_world) =
     (Inl (AttributeError no_natlink), active_wrapper\<lparr>hwnd := 7\<rparr>,
      \<lparr>calls = [(Activate ''b'' 7, None),
                (Activate ''a'' 7, Some (NatError ''rule is already active''))],
       log = []\<rparr>) \<and>
   activations [(Activate ''b'' 7, None),
                (Activate ''a'' 7, Some (NatError ''rule is already active''))] ''a'' 7 = 0"
proof -
  have o1: "ascending (active_rules_set active_wrapper) = [''a'', ''b'']"
    by code_simp
  have o2: "descending (active_rules_set active_wrapper) = [''b'', ''a'']"
    by code_simp
  have up: "begin_callback example_env Some idle_handler ascending
       (Text ''app.exe'', Text ''title'', 7) (active_wrapper, example_world) =
     (Inl (AttributeError no_natlink), active_wrapper\<lparr>hwnd := 7\<rparr>,
      \<lparr>calls = [(Activate ''a'' 7, Some (NatError ''rule is already active''))],
       log = []\<rparr>)"
    by code_simp
  have down: "begin_callback example_env Some idle_handler descending
       (Text ''app.exe'', Text ''title'', 7) (active_wrapper, example_world) =
     (Inl (AttributeError no_natlink), active_wrapper\<lparr>hwnd := 7\<rparr>,
      \<lparr>calls = [(Activate ''b'' 7, None),
                (Activate ''a'' 7, Some (NatError ''rule is already active''))],
       log = []\<rparr>)"
    by code_simp
  have n1: "activations [(Activate ''a'' 7, Some (NatError ''rule is already active''))] ''a'' 7 = 0"
    by (simp add: activations_def)
  have n2: "activations [(Activate ''a'' 7, Some (NatError ''rule is already active''))] ''b'' 7 = 0"
    by (simp add: activations_def)
  have n3: "activations [(Activate ''b'' 7, None),
                (Activate ''a'' 7, Some (NatError ''rule is already active''))] ''a'' 7 = 0"
    by (simp add: activations_def)
  show ?thesis using o1 o2 up n1 n2 down n3 by (intro conjI)
qed

subsection \<open>Deactivation\<close>

text \<open>
  Claim C8. For a name of the active set, \<^verbatim>\<open>deactivate_rule\<close> removes it from the set and
  then makes the native deactivation call, whose outcome is the outcome of the method. For
  a name that is not in the set the method raises \<^verbatim>\<open>KeyError\<close>, makes no native call and
  leaves wrapper and history as they were.
\<close>

theorem deactivate_rule_spec:
  "(r |\<in>| active_rules_set w \<longrightarrow>
      deactivate_rule orc r (w, wd) =
        (case orc (calls wd) (Deactivate r) of None \<Rightarrow> Inr () | Some e \<Rightarrow> Inl e,
         w\<lparr>active_rules_set := active_rules_set w |-| {|r|}\<rparr>,
         wd\<lparr>calls := calls wd @ [(Deactivate r, orc (calls wd) (Deactivate r))]\<rparr>)) \<and>
   (r |\<notin>| active_rules_set w \<longrightarrow>
      deactivate_rule orc r (w, wd) = (Inl (KeyError r), w, wd))"
  by (simp add: deactivate_rule_def ext_call_def Let_def split: option.splits)

theorem deactivate_rule_spec_witness:
  "''a'' |\<in>| active_rules_set example_wrapper \<and>
   ''z'' |\<notin>| active_rules_set example_wrapper \<and>
   deactivate_rule example_env ''a'' (example_wrapper, example_world) =
     (Inr (), example_wrapper\<lparr>active_rules_set := {||}\<rparr>,
      example_world\<lparr>calls := [(Deactivate ''a'', None)]\<rparr>) \<and>
   deactivate_rule example_env ''z'' (example_wrapper, example_world) =
     (Inl (KeyError ''z''), example_wrapper, example_world)"
proof -
  have a: "''a'' |\<in>| active_rules_set example_wrapper"
    by (simp add: example_wrapper_def)
  have z: "''z'' |\<notin>| active_rules_set example_wrapper"
    by (simp add: example_wrapper_def)
  have p1: "deactivate_rule example_env ''a'' (example_wrapper, example_world) =
     (Inr (), example_wrapper\<lparr>active_rules_set := {||}\<rparr>,
      example_world\<lparr>calls := [(Deactivate ''a'', None)]\<rparr>)"
    using deactivate_rule_spec [of "''a''" example_wrapper example_env example_world,
            THEN conjunct1, THEN mp, OF a]
    by (simp add: example_wrapper_def example_world_def example_env_def)
  have p2: "deactivate_rule example_env ''z'' (example_wrapper, example_world) =
     (Inl (KeyError ''z''), example_wrapper, example_world)"
    using deactivate_rule_spec [of "''z''" example_wrapper example_env example_world,
            THEN conjunct2, THEN mp, OF z] .
  show ?thesis using a z p1 p2 by (intro conjI)
qed

subsection \<open>Activation records the name first\<close>

text \<open>
  Claim C9. \<^verbatim>\<open>activate_rule\<close> adds the name to the active set before any native call:
  whatever the native engine does, and whether the method returns or raises, the wrapper
  it leaves has the name in its active set, that set is the old one with the name added,
  and a second call with the same name leaves the set as the first one left it. (The
  raising call of this code is the one whose native activation raises; the deactivation
  and second activation of the handler are never reached.)
\<close>

theorem activate_rule_member:
  "r |\<in>| active_rules_set (fst (snd (activate_rule orc r s))) \<and>
   active_rules_set (fst (snd (activate_rule orc r s))) = finsert r (active_rules_set (fst s)) \<and>
   active_rules_set (fst (snd (activate_rule orc r (snd (activate_rule orc r s))))) =
     active_rules_set (fst (snd (activate_rule orc r s)))"
  by (simp add: activate_rule_wrapper)

theorem activate_rule_member_witness:
  "activate_rule env_unknown_rule ''b'' (example_wrapper, example_world) =
     (Inl (AttributeError no_natlink),
      example_wrapper\<lparr>active_rules_set := {|''a'', ''b''|}\<rparr>,
      example_world\<lparr>calls := [(Activate ''b'' 0, Some (NatError ''unknown rule''))]\<rparr>) \<and>
   ''b'' |\<in>| active_rules_set
             (fst (snd (activate_rule env_unknown_rule ''b'' (example_wrapper, example_world)))) \<and>
   active_rules_set
     (fst (snd (activate_rule env_unknown_rule ''b''
                  (snd (activate_rule env_unknown_rule ''b'' (example_wrapper, example_world)))))) =
     {|''a'', ''b''|}"
proof -
  let ?run = "activate_rule env_unknown_rule ''b'' (example_wrapper, example_world)"
  have run: "?run =
     (Inl (AttributeError no_natlink),
      example_wrapper\<lparr>active_rules_set := {|''a'', ''b''|}\<rparr>,
      example_world\<lparr>calls := [(Activate ''b'' 0, Some (NatError ''unknown rule''))]\<rparr>)"
    by (auto simp add: activate_rule_def ext_call_def Let_def env_unknown_rule_def
          example_wrapper_def example_world_def)
  note T = activate_rule_member [of "''b''" env_unknown_rule "(example_wrapper, example_world)"]
  have s: "active_rules_set (fst (snd ?run)) = {|''a'', ''b''|}"
    using T [THEN conjunct2, THEN conjunct1] by (auto simp add: example_wrapper_def)
  have again: "active_rules_set (fst (snd (activate_rule env_unknown_rule ''b'' (snd ?run)))) =
                 {|''a'', ''b''|}"
    using T [THEN conjunct2, THEN conjunct2] unfolding s .
  show ?thesis using run T [THEN conjunct1] again by (intro conjI)
qed

subsection \<open>Loading a grammar\<close>

lemma load_calls_simps [simp]:
  "load_calls [] = []"
  "load_calls (xs @ ys) = load_calls xs @ load_calls ys"
  "load_calls (ev # evs) = (if is_Load ev then ev # load_calls evs else load_calls evs)"
  by (simp_all add: load_calls_def)

lemma log_msg_log [simp]: "log (log_msg l m wd) = log wd @ [(l, m)]"
  by (simp add: log_msg_def)

lemma ext_calls_log [simp]: "log (snd (ext_calls orc cs wd)) = log wd"
  by (induction cs arbitrary: wd) (simp_all add: ext_call_def split: option.splits)

lemma ext_calls_return:
  "fst (ext_calls orc cs wd) = None \<Longrightarrow>
   calls (snd (ext_calls orc cs wd)) = calls wd @ map (\<lambda>c. (c, None)) cs"
  by (induction cs arbitrary: wd) (simp_all add: ext_call_def split: option.splits)

lemma ext_calls_grows:
  "\<exists>evs. calls (snd (ext_calls orc cs wd)) = calls wd @ evs \<and> fst ` set evs \<subseteq> set cs"
proof (induction cs arbitrary: wd)
  case Nil
  then show ?case by simp
next
  case (Cons c cs)
  show ?case
  proof (cases "orc (calls wd) c")
    case None
    let ?wd1 = "wd\<lparr>calls := calls wd @ [(c, None)]\<rparr>"
    from Cons.IH [of ?wd1] obtain evs where
      e: "calls (snd (ext_calls orc cs ?wd1)) = calls ?wd1 @ evs" "fst ` set evs \<subseteq> set cs"
      by blast
    have u: "ext_calls orc (c # cs) wd = ext_calls orc cs ?wd1"
      using None by (simp add: ext_call_def)
    have "calls (snd (ext_calls orc (c # cs) wd)) = calls wd @ ((c, None) # evs)"
      unfolding u using e(1) by simp
    moreover have "fst ` set ((c, None) # evs) \<subseteq> set (c # cs)"
      using e(2) by auto
    ultimately show ?thesis by blast
  next
    case (Some e)
    then have "calls (snd (ext_calls orc (c # cs) wd)) = calls wd @ [(c, Some e)]"
      by (simp add: ext_call_def)
    moreover have "fst ` set [(c, Some e)] \<subseteq> set (c # cs)" by simp
    ultimately show ?thesis by blast
  qed
qed

lemma registration_no_load: "fst ev \<in> set registration \<Longrightarrow> \<not> is_Load ev"
  by (cases ev) (auto simp: registration_def)

lemma load_calls_empty: "(\<And>ev. ev \<in> set evs \<Longrightarrow> \<not> is_Load ev) \<Longrightarrow> load_calls evs = []"
  by (simp add: load_calls_def)

lemma ext_calls_all_return:
  "(\<forall>t c. c \<in> set cs \<longrightarrow> orc t c = None) \<Longrightarrow>
   ext_calls orc cs wd = (None, wd\<lparr>calls := calls wd @ map (\<lambda>c. (c, None)) cs\<rparr>)"
  by (induction cs arbitrary: wd) (simp_all add: ext_call_def)


lemma TimerThread_start_grows:
  "\<exists>evs. calls (snd (snd (TimerThread_start orc s))) = calls (snd s) @ evs \<and>
         fst ` set evs \<subseteq> {CreateTimer, ThreadStart}"
  by (simp add: TimerThread_start_def ext_call_def split: option.splits)

lemma apply_threading_fix_grows:
  "\<exists>evs. calls (snd (snd (apply_threading_fix orc s))) = calls (snd s) @ evs \<and>
         fst ` set evs \<subseteq> {CreateTimer, ThreadStart}"
proof (cases "timer_thread (fst s)")
  case None
  obtain r tt wd1 where t: "TimerThread_start orc (TimerThread_init, snd s) = (r, tt, wd1)"
    by (cases "TimerThread_start orc (TimerThread_init, snd s)") auto
  from TimerThread_start_grows [of orc "(TimerThread_init, snd s)"] t
  show ?thesis using None by (simp add: apply_threading_fix_def)
next
  case (Some tt)
  then show ?thesis by (simp add: apply_threading_fix_def)
qed

lemma connect_grows:
  "\<exists>evs. calls (snd (snd (connect orc s))) =
           calls (snd s) @ (NatConnect True, orc (calls (snd s)) (NatConnect True)) # evs \<and>
         fst ` set evs \<subseteq> {CreateTimer, ThreadStart}"
proof (cases "orc (calls (snd s)) (NatConnect True)")
  case None
  let ?wd1 = "(snd s)\<lparr>calls := calls (snd s) @ [(NatConnect True, None)]\<rparr>"
  from apply_threading_fix_grows [of orc "(fst s, ?wd1)"] obtain evs where
    "calls (snd (snd (apply_threading_fix orc (fst s, ?wd1)))) = calls ?wd1 @ evs"
    "fst ` set evs \<subseteq> {CreateTimer, ThreadStart}" by auto
  then show ?thesis using None by (simp add: connect_def ext_call_def)
next
  case (Some e)
  then show ?thesis by (simp add: connect_def ext_call_def)
qed

lemma fix_and_return_grows:
  "\<exists>evs. calls (snd (snd (fix_and_return orc w s))) = calls (snd s) @ evs \<and>
         fst ` set evs \<subseteq> {CreateTimer, ThreadStart}"
proof -
  obtain r s' where a: "apply_threading_fix orc s = (r, s')"
    by (cases "apply_threading_fix orc s") auto
  from apply_threading_fix_grows [of orc s] a
  show ?thesis by (cases r) (simp_all add: fix_and_return_def)
qed

lemma timer_calls_no_load: "fst ` set evs \<subseteq> {CreateTimer, ThreadStart} \<Longrightarrow> load_calls evs = []"
proof (rule load_calls_empty)
  fix ev assume "fst ` set evs \<subseteq> {CreateTimer, ThreadStart}" "ev \<in> set evs"
  then have "fst ev = CreateTimer \<or> fst ev = ThreadStart" by auto
  then show "\<not> is_Load ev" by (cases ev) auto
qed

lemma registered_refuse:
  "ext_calls (env_refuse m) registration
     (log_msg Debug (loading_msg example_engine example_grammar) example_world) = (None, registered)"
  by (simp add: registration_def env_refuse_def ext_call_def log_msg_def example_world_def
        registered_def)

lemma registered_connect:
  "ext_calls env_connect registration
     (log_msg Debug (loading_msg example_engine example_grammar) example_world) = (None, registered)"
  by (simp add: registration_def env_connect_def ext_call_def log_msg_def example_world_def
        registered_def)


text \<open>
  Claim C2. When the compiler returns an empty list of rule names, \<^verbatim>\<open>_load_grammar\<close>
  makes no native load call, whatever the native engine does: the calls it adds to the
  history are calls of the registration (creating the grammar object, registering the
  three callbacks), and the engine is left as it was. When the registration raises
  nothing, the method returns the wrapper as the constructor made it, with the empty
  list of rule names.
\<close>

theorem load_grammar_no_rules:
  "compile g = Inr (cg, []) \<longrightarrow>
     load_calls (new_calls wd (snd (snd (load_grammar orc compile g (eng, wd))))) = [] \<and>
     fst ` set (new_calls wd (snd (snd (load_grammar orc compile g (eng, wd))))) \<subseteq> set registration \<and>
     fst (snd (load_grammar orc compile g (eng, wd))) = eng \<and>
     ((\<forall>t c. c \<in> set registration \<longrightarrow> orc t c = None) \<longrightarrow>
        fst (load_grammar orc compile g (eng, wd)) =
          Inr \<lparr>grammar_name = name g, rule_names = Some [], active_rules_set = {||},
               hwnd = 0, beginning = False\<rparr> \<and>
        new_calls wd (snd (snd (load_grammar orc compile g (eng, wd)))) =
          map (\<lambda>c. (c, None)) registration)"
proof (intro impI)
  assume comp: "compile g = Inr (cg, [])"
  define wd0 where "wd0 = log_msg Debug (loading_msg eng g) wd"
  obtain r wd1 where reg: "ext_calls orc registration wd0 = (r, wd1)"
    by (cases "ext_calls orc registration wd0") auto
  from ext_calls_grows [of orc registration wd0] reg obtain evs where
    e: "calls wd1 = calls wd @ evs" "fst ` set evs \<subseteq> set registration"
    by (auto simp: wd0_def)
  have e3: "r = None \<longrightarrow> evs = map (\<lambda>c. (c, None)) registration"
    using ext_calls_return [of orc registration wd0] reg e(1) by (simp add: wd0_def)
  have res: "load_grammar orc compile g (eng, wd) =
     (case r of None \<Rightarrow> Inr ((GrammarWrapper (name g))\<lparr>rule_names := Some []\<rparr>) | Some e \<Rightarrow> Inl e,
      eng, wd1)"
    using comp reg by (simp add: load_grammar_def Let_def wd0_def [symmetric] split: option.splits)
  have nc: "new_calls wd (snd (snd (load_grammar orc compile g (eng, wd)))) = evs"
    using res e(1) by (simp add: new_calls_def)
  have nl: "load_calls evs = []"
    using e(2) by (intro load_calls_empty registration_no_load) auto
  have all: "(\<forall>t c. c \<in> set registration \<longrightarrow> orc t c = None) \<Longrightarrow> r = None"
    using ext_calls_all_return [of registration orc wd0] reg by simp
  have c1: "load_calls (new_calls wd (snd (snd (load_grammar orc compile g (eng, wd))))) = []"
    unfolding nc by (rule nl)
  have c2: "fst ` set (new_calls wd (snd (snd (load_grammar orc compile g (eng, wd)))))
              \<subseteq> set registration"
    unfolding nc by (rule e(2))
  have c3: "fst (snd (load_grammar orc compile g (eng, wd))) = eng"
    using res by simp
  have c4: "(\<forall>t c. c \<in> set registration \<longrightarrow> orc t c = None) \<longrightarrow>
        fst (load_grammar orc compile g (eng, wd)) =
          Inr \<lparr>grammar_name = name g, rule_names = Some [], active_rules_set = {||},
               hwnd = 0, beginning = False\<rparr> \<and>
        new_calls wd (snd (snd (load_grammar orc compile g (eng, wd)))) =
          map (\<lambda>c. (c, None)) registration"
  proof
    assume "\<forall>t c. c \<in> set registration \<longrightarrow> orc t c = None"
    then have r: "r = None" by (rule all)
    show "fst (load_grammar orc compile g (eng, wd)) =
          Inr \<lparr>grammar_name = name g, rule_names = Some [], active_rules_set = {||},
               hwnd = 0, beginning = False\<rparr> \<and>
        new_calls wd (snd (snd (load_grammar orc compile g (eng, wd)))) =
          map (\<lambda>c. (c, None)) registration"
      unfolding nc using r e3 res by (simp add: GrammarWrapper_def)
  qed
  show "load_calls (new_calls wd (snd (snd (load_grammar orc compile g (eng, wd))))) = [] \<and>
     fst ` set (new_calls wd (snd (snd (load_grammar orc compile g (eng, wd))))) \<subseteq> set registration \<and>
     fst (snd (load_grammar orc compile g (eng, wd))) = eng \<and>
     ((\<forall>t c. c \<in> set registration \<longrightarrow> orc t c = None) \<longrightarrow>
        fst (load_grammar orc compile g (eng, wd)) =
          Inr \<lparr>grammar_name = name g, rule_names = Some [], active_rules_set = {||},
               hwnd = 0, beginning = False\<rparr> \<and>
        new_calls wd (snd (snd (load_grammar orc compile g (eng, wd)))) =
          map (\<lambda>c. (c, None)) registration)"
    using c1 c2 c3 c4 by (intro conjI)
qed

theorem load_grammar_no_rules_witness:
  "example_compile_empty example_grammar = Inr (''compiled'', []) \<and>
   load_grammar (env_refuse ''bad grammar'') example_compile_empty example_grammar
       (example_engine, example_world) =
     (Inr \<lparr>grammar_name = ''g'', rule_names = Some [], active_rules_set = {||},
           hwnd = 0, beginning = False\<rparr>,
      example_engine, registered)"
proof -
  let ?run = "load_grammar (env_refuse ''bad grammar'') example_compile_empty example_grammar
                (example_engine, example_world)"
  have comp: "example_compile_empty example_grammar = Inr (''compiled'', [])"
    by (simp add: example_compile_empty_def)
  have reg: "\<forall>t c. c \<in> set registration \<longrightarrow> env_refuse ''bad grammar'' t c = None"
    by (auto simp add: registration_def env_refuse_def)
  note T = load_grammar_no_rules [of example_compile_empty example_grammar "''compiled''"
             example_world "env_refuse ''bad grammar''" example_engine, THEN mp, OF comp]
  have res: "fst ?run =
     Inr \<lparr>grammar_name = ''g'', rule_names = Some [], active_rules_set = {||},
          hwnd = 0, beginning = False\<rparr>"
    using T [THEN conjunct2, THEN conjunct2, THEN conjunct2, THEN mp, OF reg, THEN conjunct1]
    by (simp add: example_grammar_def)
  have eng: "fst (snd ?run) = example_engine"
    using T [THEN conjunct2, THEN conjunct2, THEN conjunct1] .
  have wd: "snd (snd ?run) = registered"
    by (simp add: load_grammar_def Let_def comp registered_refuse)
  have "?run = (fst ?run, fst (snd ?run), snd (snd ?run))" by simp
  then have "?run =
     (Inr \<lparr>grammar_name = ''g'', rule_names = Some [], active_rules_set = {||},
           hwnd = 0, beginning = False\<rparr>, example_engine, registered)"
    unfolding res eng wd .
  then show ?thesis using comp by (intro conjI)
qed

text \<open>
  Claim C3. Let the run reach the first native load (the registration returned, the
  compiler returned a non-empty list of rule names) and let that load raise a native
  error \<open>e\<close>. If the message of \<open>e\<close> is not the not-connected message, the method raises
  \<^verbatim>\<open>EngineError\<close> with the grammar and the message of \<open>e\<close>, after logging it, and makes
  no further call. If it is the not-connected message, the next call is
  \<^verbatim>\<open>natConnect(True)\<close>; and when \<^verbatim>\<open>connect\<close> returns, the load is made a second time
  with the same arguments and these two are the only load calls of the run (an exception
  of \<^verbatim>\<open>connect\<close> itself leaves the method as it is, before any retry). A native
  error \<open>e2\<close> of the second load is raised as \<^verbatim>\<open>EngineError\<close> with the grammar and the
  message of \<open>e2\<close>; when the second load returns, the method ends with the threading fix
  and returns the wrapper.
\<close>

theorem load_grammar_retry:
  assumes reg: "ext_calls orc registration (log_msg Debug (loading_msg eng g) wd) = (None, wd1)"
    and comp: "compile g = Inr (cg, names)" and ne: "names \<noteq> []"
    and ar: "ar = (has_process_recognition_other g \<or> has_process_recognition_failure g)"
    and first: "orc (calls wd1) (Load cg ar False) = Some e" and nat: "is_NatError e"
    and wd2: "wd2 = wd1\<lparr>calls := calls wd1 @ [(Load cg ar False, Some e)]\<rparr>"
    and run: "load_grammar orc compile g (eng, wd) = (res, eng', wd')"
  shows
    "(str_exn e \<noteq> not_connected \<longrightarrow>
        res = Inl (EngineError (load_failed g e)) \<and> eng' = eng \<and>
        wd' = log_msg Exception (load_failed g e) wd2) \<and>
     (str_exn e = not_connected \<longrightarrow>
        (\<exists>rest. new_calls wd2 wd' =
                  (NatConnect True, orc (calls wd2) (NatConnect True)) # rest) \<and>
        (\<forall>eng3 wd3. connect orc (eng, wd2) = (Inr (), eng3, wd3) \<longrightarrow>
           load_calls (new_calls wd wd') =
             [(Load cg ar False, Some e),
              (Load cg ar False, orc (calls wd3) (Load cg ar False))] \<and>
           (\<forall>e2. orc (calls wd3) (Load cg ar False) = Some e2 \<and> is_NatError e2 \<longrightarrow>
                 res = Inl (EngineError (load_failed g e2)) \<and> eng' = eng3 \<and>
                 wd' = log_msg Exception (load_failed g e2)
                         (wd3\<lparr>calls := calls wd3 @ [(Load cg ar False, Some e2)]\<rparr>)) \<and>
           (orc (calls wd3) (Load cg ar False) = None \<longrightarrow>
                 (res, eng', wd') =
                   fix_and_return orc ((GrammarWrapper (name g))\<lparr>rule_names := Some names\<rparr>)
                     (eng3, wd3\<lparr>calls := calls wd3 @ [(Load cg ar False, None)]\<rparr>)))) \<and>
     (str_exn e = not_connected \<longrightarrow>
        (\<forall>e' eng3 wd3. connect orc (eng, wd2) = (Inl e', eng3, wd3) \<longrightarrow>
           res = Inl e' \<and> eng' = eng3 \<and> wd' = wd3))"
proof -
  let ?L = "Load cg ar False"
  let ?w = "(GrammarWrapper (name g))\<lparr>rule_names := Some names\<rparr>"
  have c1: "calls wd1 = calls wd @ map (\<lambda>c. (c, None)) registration"
    using ext_calls_return [of orc registration "log_msg Debug (loading_msg eng g) wd"] reg
    by simp
  have pre: "load_calls (map (\<lambda>c. (c, None)) registration) = []"
    by (simp add: registration_def)
  have call1: "ext_call orc ?L wd1 = (Some e, wd2)"
    using first wd2 by (simp add: ext_call_def)
  have unf: "load_grammar orc compile g (eng, wd) =
     (if str_exn e = not_connected then
        (case connect orc (eng, wd2) of
           (Inl e', s3) \<Rightarrow> (Inl e', s3)
         | (Inr u, s3) \<Rightarrow>
             (case ext_call orc ?L (snd s3) of
                (None, wd4) \<Rightarrow> fix_and_return orc ?w (fst s3, wd4)
              | (Some e2, wd4) \<Rightarrow>
                  if is_NatError e2 then
                    (Inl (EngineError (load_failed g e2)), fst s3,
                     log_msg Exception (load_failed g e2) wd4)
                  else (Inl e2, fst s3, wd4)))
      else (Inl (EngineError (load_failed g e)), eng, log_msg Exception (load_failed g e) wd2))"
    using reg comp ne nat call1 unfolding ar by (simp add: load_grammar_def Let_def)
  have A: "str_exn e \<noteq> not_connected \<longrightarrow>
        res = Inl (EngineError (load_failed g e)) \<and> eng' = eng \<and>
        wd' = log_msg Exception (load_failed g e) wd2"
    using unf run by auto
  have B: "str_exn e = not_connected \<longrightarrow>
        (\<exists>rest. new_calls wd2 wd' =
                  (NatConnect True, orc (calls wd2) (NatConnect True)) # rest) \<and>
        (\<forall>eng3 wd3. connect orc (eng, wd2) = (Inr (), eng3, wd3) \<longrightarrow>
           load_calls (new_calls wd wd') =
             [(Load cg ar False, Some e),
              (Load cg ar False, orc (calls wd3) (Load cg ar False))] \<and>
           (\<forall>e2. orc (calls wd3) (Load cg ar False) = Some e2 \<and> is_NatError e2 \<longrightarrow>
                 res = Inl (EngineError (load_failed g e2)) \<and> eng' = eng3 \<and>
                 wd' = log_msg Exception (load_failed g e2)
                         (wd3\<lparr>calls := calls wd3 @ [(Load cg ar False, Some e2)]\<rparr>)) \<and>
           (orc (calls wd3) (Load cg ar False) = None \<longrightarrow>
                 (res, eng', wd') =
                   fix_and_return orc ?w
                     (eng3, wd3\<lparr>calls := calls wd3 @ [(Load cg ar False, None)]\<rparr>)))"
  proof (intro impI)
    assume nc: "str_exn e = not_connected"
    obtain rc eng3 wd3 where con: "connect orc (eng, wd2) = (rc, eng3, wd3)"
      by (cases "connect orc (eng, wd2)") auto
    from connect_grows [of orc "(eng, wd2)"] con obtain evc where
      g3: "calls wd3 = calls wd2 @ (NatConnect True, orc (calls wd2) (NatConnect True)) # evc"
          "fst ` set evc \<subseteq> {CreateTimer, ThreadStart}"
      by auto
    have nl3: "load_calls evc = []" using g3(2) by (rule timer_calls_no_load)
    let ?o2 = "orc (calls wd3) ?L"
    let ?wd4 = "wd3\<lparr>calls := calls wd3 @ [(?L, ?o2)]\<rparr>"
    have call2: "ext_call orc ?L wd3 = (?o2, ?wd4)" by (simp add: ext_call_def)
    show "(\<exists>rest. new_calls wd2 wd' =
                  (NatConnect True, orc (calls wd2) (NatConnect True)) # rest) \<and>
        (\<forall>eng3 wd3. connect orc (eng, wd2) = (Inr (), eng3, wd3) \<longrightarrow>
           load_calls (new_calls wd wd') =
             [(Load cg ar False, Some e),
              (Load cg ar False, orc (calls wd3) (Load cg ar False))] \<and>
           (\<forall>e2. orc (calls wd3) (Load cg ar False) = Some e2 \<and> is_NatError e2 \<longrightarrow>
                 res = Inl (EngineError (load_failed g e2)) \<and> eng' = eng3 \<and>
                 wd' = log_msg Exception (load_failed g e2)
                         (wd3\<lparr>calls := calls wd3 @ [(Load cg ar False, Some e2)]\<rparr>)) \<and>
           (orc (calls wd3) (Load cg ar False) = None \<longrightarrow>
                 (res, eng', wd') =
                   fix_and_return orc ?w
                     (eng3, wd3\<lparr>calls := calls wd3 @ [(Load cg ar False, None)]\<rparr>)))"
    proof (cases rc)
      case (Inl ec)
      have "wd' = wd3" using unf run nc con Inl by simp
      then have "new_calls wd2 wd' =
                  (NatConnect True, orc (calls wd2) (NatConnect True)) # evc"
        using g3(1) by (simp add: new_calls_def)
      then show ?thesis using con Inl by simp
    next
      case (Inr u)
      have r: "(res, eng', wd') =
          (case ?o2 of
             None \<Rightarrow> fix_and_return orc ?w (eng3, ?wd4)
           | Some e2 \<Rightarrow>
               if is_NatError e2 then
                 (Inl (EngineError (load_failed g e2)), eng3,
                  log_msg Exception (load_failed g e2) ?wd4)
               else (Inl e2, eng3, ?wd4))"
        using unf run nc con Inr call2 by (simp split: option.splits)
      have tail: "\<exists>evf. calls wd' = calls ?wd4 @ evf \<and> load_calls evf = []"
      proof (cases ?o2)
        case None
        from fix_and_return_grows [of orc ?w "(eng3, ?wd4)"] obtain evf where
          f: "calls (snd (snd (fix_and_return orc ?w (eng3, ?wd4)))) = calls ?wd4 @ evf"
             "fst ` set evf \<subseteq> {CreateTimer, ThreadStart}" by auto
        have "wd' = snd (snd (fix_and_return orc ?w (eng3, ?wd4)))"
          using r None by (metis option.simps(4) snd_conv)
        then show ?thesis using f timer_calls_no_load [OF f(2)] by auto
      next
        case (Some e2)
        then have "calls wd' = calls ?wd4 @ []" using r by (auto split: if_splits)
        then show ?thesis by (intro exI [of _ "[]"]) simp
      qed
      then obtain evf where
        f: "calls wd' = calls ?wd4 @ evf" "load_calls evf = []" by blast
      have all: "calls wd' = calls wd @ (map (\<lambda>c. (c, None)) registration @ [(?L, Some e)] @
                   (NatConnect True, orc (calls wd2) (NatConnect True)) # evc @ [(?L, ?o2)] @ evf)"
        using f(1) g3(1) wd2 c1 by simp
      have lc: "load_calls (new_calls wd wd') = [(?L, Some e), (?L, ?o2)]"
        unfolding new_calls_append [OF all] using pre nl3 f(2) by simp
      have nc2: "new_calls wd2 wd' =
          (NatConnect True, orc (calls wd2) (NatConnect True)) # (evc @ [(?L, ?o2)] @ evf)"
        using f(1) g3(1) by (simp add: new_calls_def)
      have e2case: "\<forall>e2. ?o2 = Some e2 \<and> is_NatError e2 \<longrightarrow>
                 res = Inl (EngineError (load_failed g e2)) \<and> eng' = eng3 \<and>
                 wd' = log_msg Exception (load_failed g e2)
                         (wd3\<lparr>calls := calls wd3 @ [(?L, Some e2)]\<rparr>)"
        using r by auto
      have ok: "?o2 = None \<longrightarrow>
                 (res, eng', wd') =
                   fix_and_return orc ?w (eng3, wd3\<lparr>calls := calls wd3 @ [(?L, None)]\<rparr>)"
        using r by auto
      have conn: "\<exists>rest. new_calls wd2 wd' =
                  (NatConnect True, orc (calls wd2) (NatConnect True)) # rest"
        using nc2 by blast
      have univ: "\<forall>a b. connect orc (eng, wd2) = (Inr (), a, b) \<longrightarrow>
           load_calls (new_calls wd wd') =
             [(Load cg ar False, Some e),
              (Load cg ar False, orc (calls b) (Load cg ar False))] \<and>
           (\<forall>e2. orc (calls b) (Load cg ar False) = Some e2 \<and> is_NatError e2 \<longrightarrow>
                 res = Inl (EngineError (load_failed g e2)) \<and> eng' = a \<and>
                 wd' = log_msg Exception (load_failed g e2)
                         (b\<lparr>calls := calls b @ [(Load cg ar False, Some e2)]\<rparr>)) \<and>
           (orc (calls b) (Load cg ar False) = None \<longrightarrow>
                 (res, eng', wd') =
                   fix_and_return orc ?w
                     (a, b\<lparr>calls := calls b @ [(Load cg ar False, None)]\<rparr>))"
      proof (intro allI impI)
        fix a b assume "connect orc (eng, wd2) = (Inr (), a, b)"
        then have ab: "a = eng3" "b = wd3" using con by auto
        show "load_calls (new_calls wd wd') =
             [(Load cg ar False, Some e),
              (Load cg ar False, orc (calls b) (Load cg ar False))] \<and>
           (\<forall>e2. orc (calls b) (Load cg ar False) = Some e2 \<and> is_NatError e2 \<longrightarrow>
                 res = Inl (EngineError (load_failed g e2)) \<and> eng' = a \<and>
                 wd' = log_msg Exception (load_failed g e2)
                         (b\<lparr>calls := calls b @ [(Load cg ar False, Some e2)]\<rparr>)) \<and>
           (orc (calls b) (Load cg ar False) = None \<longrightarrow>
                 (res, eng', wd') =
                   fix_and_return orc ?w
                     (a, b\<lparr>calls := calls b @ [(Load cg ar False, None)]\<rparr>))"
          unfolding ab by (intro conjI lc e2case ok)
      qed
      show ?thesis using conn univ by (rule conjI)
    qed
  qed
  have C: "str_exn e = not_connected \<longrightarrow>
        (\<forall>e' eng3 wd3. connect orc (eng, wd2) = (Inl e', eng3, wd3) \<longrightarrow>
           res = Inl e' \<and> eng' = eng3 \<and> wd' = wd3)"
    using unf run by auto
  show ?thesis using A B C by (intro conjI)
qed

theorem load_grammar_retry_witness:
  "fst (load_grammar (env_refuse ''bad grammar'') example_compile example_grammar
         (example_engine, example_world)) =
     Inl (EngineError ''Failed to load grammar Grammar(g): bad grammar.'') \<and>
   fst (load_grammar (env_refuse not_connected) example_compile example_grammar
         (example_engine, example_world)) =
     Inl (EngineError (''Failed to load grammar Grammar(g): '' @ not_connected @ ''.'')) \<and>
   load_calls (new_calls example_world
       (snd (snd (load_grammar (env_refuse not_connected) example_compile example_grammar
                    (example_engine, example_world))))) =
     [(Load ''compiled'' False False, Some (NatError not_connected)),
      (Load ''compiled'' False False, Some (NatError not_connected))] \<and>
   load_calls (new_calls example_world
       (snd (snd (load_grammar env_connect example_compile example_grammar
                    (example_engine, example_world))))) =
     [(Load ''compiled'' False False, Some (NatError not_connected)),
      (Load ''compiled'' False False, None)]"
proof -
  let ?L = "Load ''compiled'' False False"
  have comp: "example_compile example_grammar = Inr (''compiled'', [''a''])"
    by (simp add: example_compile_def)
  have ne: "[''a''] \<noteq> []" by simp
  have ar: "False = (has_process_recognition_other example_grammar
                     \<or> has_process_recognition_failure example_grammar)"
    by (simp add: example_grammar_def)
  have nat: "\<And>m. is_NatError (NatError m)" by simp
  have first: "\<And>m. env_refuse m (calls registered) ?L = Some (NatError m)"
    by (simp add: env_refuse_def)
  have run: "\<And>orc. load_grammar orc example_compile example_grammar (example_engine, example_world) =
     (fst (load_grammar orc example_compile example_grammar (example_engine, example_world)),
      fst (snd (load_grammar orc example_compile example_grammar (example_engine, example_world))),
      snd (snd (load_grammar orc example_compile example_grammar (example_engine, example_world))))"
    by simp
  have other: "str_exn (NatError ''bad grammar'') \<noteq> not_connected"
    by (simp add: not_connected_def)
  have same: "str_exn (NatError not_connected) = not_connected" by simp
  note A = load_grammar_retry [OF registered_refuse comp ne ar first nat refl run,
             THEN conjunct1, THEN mp, OF other]
  have a: "fst (load_grammar (env_refuse ''bad grammar'') example_compile example_grammar
         (example_engine, example_world)) =
     Inl (EngineError ''Failed to load grammar Grammar(g): bad grammar.'')"
    using A by (simp add: load_failed_def example_grammar_def)
  let ?wd2 = "registered\<lparr>calls := calls registered @ [(?L, Some (NatError not_connected))]\<rparr>"
  let ?eng3 = "example_engine\<lparr>timer_thread := Some \<lparr>stop_event = False, timer = True\<rparr>\<rparr>"
  let ?wd3 = "?wd2\<lparr>calls := calls ?wd2 @
                 [(NatConnect True, None), (CreateTimer, None), (ThreadStart, None)]\<rparr>"
  have con: "\<And>orc. orc = env_refuse not_connected \<or> orc = env_connect \<Longrightarrow>
               connect orc (example_engine, ?wd2) = (Inr (), ?eng3, ?wd3)"
    by (auto simp add: connect_def apply_threading_fix_def TimerThread_start_def
          TimerThread_init_def ext_call_def env_refuse_def env_connect_def example_engine_def)
  note B = load_grammar_retry [OF registered_refuse comp ne ar first nat refl run,
             THEN conjunct2, THEN conjunct1, THEN mp, OF same, THEN conjunct2,
             THEN spec, THEN spec, THEN mp,
             OF con [OF disjI1 [OF refl]]]
  have second: "env_refuse not_connected (calls ?wd3) ?L = Some (NatError not_connected)"
    by (simp add: env_refuse_def)
  have b1: "fst (load_grammar (env_refuse not_connected) example_compile example_grammar
         (example_engine, example_world)) =
     Inl (EngineError (''Failed to load grammar Grammar(g): '' @ not_connected @ ''.''))"
    using B [THEN conjunct2, THEN conjunct1, THEN spec, THEN mp, OF conjI [OF second nat]]
    by (simp add: load_failed_def example_grammar_def)
  have b2: "load_calls (new_calls example_world
       (snd (snd (load_grammar (env_refuse not_connected) example_compile example_grammar
                    (example_engine, example_world))))) =
     [(?L, Some (NatError not_connected)), (?L, Some (NatError not_connected))]"
    using B [THEN conjunct1] unfolding second .
  have first': "env_connect (calls registered) ?L = Some (NatError not_connected)"
    by (simp add: env_connect_def registered_def registration_def)
  note C = load_grammar_retry [OF registered_connect comp ne ar first' nat refl run,
             THEN conjunct2, THEN conjunct1, THEN mp, OF same, THEN conjunct2,
             THEN spec, THEN spec, THEN mp,
             OF con [OF disjI2 [OF refl]]]
  have third: "env_connect (calls ?wd3) ?L = None"
    by (simp add: env_connect_def)
  have c: "load_calls (new_calls example_world
       (snd (snd (load_grammar env_connect example_compile example_grammar
                    (example_engine, example_world))))) =
     [(?L, Some (NatError not_connected)), (?L, None)]"
    using C [THEN conjunct1] unfolding third .
  show ?thesis using a b1 b2 c by (intro conjI)
qed

subsection \<open>Updating a list\<close>

lemma native_list_append:
  "native_list (evs @ evs') n = foldl (list_step n) (native_list evs n) evs'"
  by (simp add: native_list_def)

lemma foldl_appends:
  "foldl (list_step n) xs (map (\<lambda>x. (AppendList n x, None)) items) = xs @ items"
  by (induction items arbitrary: xs) simp_all

text \<open>
  Claim C5. For a loaded grammar, the first call of \<^verbatim>\<open>update_list\<close> empties the named
  native list and every further call appends an item of the current list to it; nothing
  is logged. When the method returns, its calls are the emptying followed by one append
  for each item of the current list, in order, all of which returned, and the native list
  then holds exactly the items of the current list, whatever the history before the call.
\<close>

theorem update_list_replaces:
  "update_list orc (Some w) lst wd = (res, wd') \<longrightarrow>
     (\<exists>rest. new_calls wd wd' =
               (EmptyList (list_name lst), orc (calls wd) (EmptyList (list_name lst))) # rest \<and>
             fst ` set rest \<subseteq> AppendList (list_name lst) ` set (get_list_items lst)) \<and>
     log wd' = log wd \<and>
     (res = Inr () \<longrightarrow>
        new_calls wd wd' =
          (EmptyList (list_name lst), None) #
          map (\<lambda>x. (AppendList (list_name lst) x, None)) (get_list_items lst) \<and>
        native_list (calls wd') (list_name lst) = get_list_items lst)"
proof
  assume run: "update_list orc (Some w) lst wd = (res, wd')"
  let ?n = "list_name lst"
  let ?items = "get_list_items lst"
  let ?o = "orc (calls wd) (EmptyList ?n)"
  let ?wd1 = "wd\<lparr>calls := calls wd @ [(EmptyList ?n, ?o)]\<rparr>"
  have c: "ext_call orc (EmptyList ?n) wd = (?o, ?wd1)" by (simp add: ext_call_def)
  show "(\<exists>rest. new_calls wd wd' = (EmptyList ?n, ?o) # rest \<and>
             fst ` set rest \<subseteq> AppendList ?n ` set ?items) \<and>
     log wd' = log wd \<and>
     (res = Inr () \<longrightarrow>
        new_calls wd wd' = (EmptyList ?n, None) # map (\<lambda>x. (AppendList ?n x, None)) ?items \<and>
        native_list (calls wd') ?n = ?items)"
  proof (cases ?o)
    case (Some e)
    then have "res = Inl e" "wd' = ?wd1"
      using run c by (simp_all add: update_list_def)
    then show ?thesis using Some by (simp add: new_calls_def)
  next
    case None
    obtain r wd2 where a: "ext_calls orc (map (AppendList ?n) ?items) ?wd1 = (r, wd2)"
      by (cases "ext_calls orc (map (AppendList ?n) ?items) ?wd1") auto
    from ext_calls_grows [of orc "map (AppendList ?n) ?items" ?wd1] a obtain evs where
      g: "calls wd2 = calls ?wd1 @ evs" "fst ` set evs \<subseteq> set (map (AppendList ?n) ?items)"
      by auto
    have l2: "log wd2 = log wd" using ext_calls_log [of orc "map (AppendList ?n) ?items" ?wd1] a
      by simp
    have rw: "wd' = wd2" "res = (case r of None \<Rightarrow> Inr () | Some e \<Rightarrow> Inl e)"
      using run c None a by (simp_all add: update_list_def split: option.splits)
    have nc: "new_calls wd wd' = (EmptyList ?n, ?o) # evs"
      using g(1) rw(1) by (simp add: new_calls_def)
    have ok: "res = Inr () \<longrightarrow>
        new_calls wd wd' = (EmptyList ?n, None) # map (\<lambda>x. (AppendList ?n x, None)) ?items \<and>
        native_list (calls wd') ?n = ?items"
    proof
      assume "res = Inr ()"
      then have r: "r = None" using rw(2) by (cases r) auto
      have e: "evs = map (\<lambda>x. (AppendList ?n x, None)) ?items"
        using ext_calls_return [of orc "map (AppendList ?n) ?items" ?wd1] a r g(1)
        by (simp add: comp_def)
      have "calls wd' = calls wd @ [(EmptyList ?n, None)] @ map (\<lambda>x. (AppendList ?n x, None)) ?items"
        using g(1) rw(1) e None by simp
      then have "native_list (calls wd') ?n = ?items"
        by (simp add: native_list_def foldl_appends)
      then show "new_calls wd wd' = (EmptyList ?n, None) # map (\<lambda>x. (AppendList ?n x, None)) ?items \<and>
        native_list (calls wd') ?n = ?items"
        using nc e None by simp
    qed
    have first: "\<exists>rest. new_calls wd wd' = (EmptyList ?n, ?o) # rest \<and>
             fst ` set rest \<subseteq> AppendList ?n ` set ?items"
      using nc g(2) by auto
    show ?thesis using first l2 rw(1) ok by simp
  qed
qed

theorem update_list_replaces_witness:
  "native_list (calls stale_world) ''colours'' = [''blue''] \<and>
   update_list example_env (Some example_wrapper) example_list stale_world =
     (Inr (), stale_world\<lparr>calls := calls stale_world @
        [(EmptyList ''colours'', None), (AppendList ''colours'' ''red'', None),
         (AppendList ''colours'' ''green'', None), (AppendList ''colours'' ''red'', None)]\<rparr>) \<and>
   native_list (calls stale_world @
        [(EmptyList ''colours'', None), (AppendList ''colours'' ''red'', None),
         (AppendList ''colours'' ''green'', None), (AppendList ''colours'' ''red'', None)])
     ''colours'' = [''red'', ''green'', ''red'']"
proof -
  let ?wd' = "stale_world\<lparr>calls := calls stale_world @
        [(EmptyList ''colours'', None), (AppendList ''colours'' ''red'', None),
         (AppendList ''colours'' ''green'', None), (AppendList ''colours'' ''red'', None)]\<rparr>"
  have old: "native_list (calls stale_world) ''colours'' = [''blue'']"
    by (simp add: native_list_def stale_world_def)
  have run: "update_list example_env (Some example_wrapper) example_list stale_world = (Inr (), ?wd')"
    by (simp add: update_list_def Let_def example_list_def ext_call_def example_env_def)
  from update_list_replaces [of example_env example_wrapper example_list stale_world "Inr ()" ?wd',
         THEN mp, OF run, THEN conjunct2, THEN conjunct2, THEN mp, OF refl, THEN conjunct2]
  have "native_list (calls ?wd') ''colours'' = [''red'', ''green'', ''red'']"
    by (simp add: example_list_def)
  then show ?thesis using old run by simp
qed

subsection \<open>Disconnecting\<close>

lemma quiet_call:
  assumes "\<forall>t c e. orc t c = Some e \<longrightarrow> (\<exists>k m. c = WindowClose k \<and> e = WinError m)"
    and "\<And>k. c \<noteq> WindowClose k"
  shows "ext_call orc c wd = (None, wd\<lparr>calls := calls wd @ [(c, None)]\<rparr>)"
proof -
  have "orc (calls wd) c = None"
  proof (cases "orc (calls wd) c")
    case None then show ?thesis .
  next
    case (Some e)
    with assms show ?thesis by blast
  qed
  then show ?thesis by (simp add: ext_call_def)
qed

lemma quiet_unloads:
  assumes "\<forall>t c e. orc t c = Some e \<longrightarrow> (\<exists>k m. c = WindowClose k \<and> e = WinError m)"
  shows "ext_calls orc (map GrammarUnload gs) wd =
           (None, wd\<lparr>calls := calls wd @ map (\<lambda>c. (c, None)) (map GrammarUnload gs)\<rparr>)"
proof (rule ext_calls_all_return)
  show "\<forall>t c. c \<in> set (map GrammarUnload gs) \<longrightarrow> orc t c = None"
  proof (intro allI impI)
    fix t c assume "c \<in> set (map GrammarUnload gs)"
    then obtain g where c: "c = GrammarUnload g" by auto
    show "orc t c = None"
    proof (cases "orc t c")
      case None then show ?thesis .
    next
      case (Some e)
      with assms c show ?thesis by blast
    qed
  qed
qed

lemma quiet_close_dialog:
  assumes "\<forall>t c e. orc t c = Some e \<longrightarrow> (\<exists>k m. c = WindowClose k \<and> e = WinError m)"
  shows "\<exists>evs. close_dialog orc wins pid wd = (None, wd\<lparr>calls := calls wd @ evs\<rparr>) \<and>
               map fst evs = dialog_calls wins pid"
proof (cases "List.find (\<lambda>w. is_visible w \<and> window_pid w = pid) wins")
  case None
  then have "close_dialog orc wins pid wd = (None, wd\<lparr>calls := calls wd @ []\<rparr>)"
    by (simp add: close_dialog_def)
  moreover have "map fst [] = dialog_calls wins pid" using None by (simp add: dialog_calls_def)
  ultimately show ?thesis by blast
next
  case (Some w)
  let ?c = "WindowClose (window_handle w)"
  let ?o = "orc (calls wd) ?c"
  have "?o = None \<or> (\<exists>m. ?o = Some (WinError m))"
    using assms by (cases ?o) auto
  then have "close_dialog orc wins pid wd = (None, wd\<lparr>calls := calls wd @ [(?c, ?o)]\<rparr>)"
    using Some by (auto simp add: close_dialog_def ext_call_def)
  moreover have "map fst [(?c, ?o)] = dialog_calls wins pid"
    using Some by (simp add: dialog_calls_def)
  ultimately show ?thesis by blast
qed

lemma quiet_thread_stop:
  assumes "\<forall>t c e. orc t c = Some e \<longrightarrow> (\<exists>k m. c = WindowClose k \<and> e = WinError m)"
  shows "\<exists>tt'. TimerThread_stop orc (tt, wd) =
           (Inr (), tt', wd\<lparr>calls := calls wd @ map (\<lambda>c. (c, None)) (thread_calls (Some tt))\<rparr>)
           \<and> stop_event tt' \<and> \<not> timer tt'"
proof -
  let ?wd1 = "wd\<lparr>calls := calls wd @ [(StopEventSet, None)]\<rparr>"
  have a: "ext_call orc StopEventSet wd = (None, ?wd1)"
    using assms by (rule quiet_call) simp
  have b: "ext_call orc TimerStop ?wd1 = (None, ?wd1\<lparr>calls := calls ?wd1 @ [(TimerStop, None)]\<rparr>)"
    using assms by (rule quiet_call) simp
  show ?thesis
    using a b by (cases "timer tt") (simp_all add: TimerThread_stop_def stop_timer_def thread_calls_def)
qed

lemma disconnect_quiet:
  assumes q: "\<forall>t c e. orc t c = Some e \<longrightarrow> (\<exists>k m. c = WindowClose k \<and> e = WinError m)"
  shows "\<exists>evs. disconnect orc gs wins pid (eng, wd) =
           (Inr (), eng\<lparr>timer_thread := None\<rparr>, wd\<lparr>calls := calls wd @ evs\<rparr>) \<and>
         map fst evs = disconnect_calls gs wins pid (timer_thread eng)"
proof -
  let ?e1 = "map (\<lambda>c. (c, None)) (map GrammarUnload gs)"
  let ?wd1 = "wd\<lparr>calls := calls wd @ ?e1\<rparr>"
  let ?wd2 = "?wd1\<lparr>calls := calls ?wd1 @ [(GetMatchingWindows target_title, None)]\<rparr>"
  have s1: "ext_calls orc (map GrammarUnload gs) wd = (None, ?wd1)"
    using q by (rule quiet_unloads)
  have s2: "ext_call orc (GetMatchingWindows target_title) ?wd1 = (None, ?wd2)"
    using q by (rule quiet_call) simp
  from quiet_close_dialog [OF q, of wins pid ?wd2] obtain e3 where
    s3: "close_dialog orc wins pid ?wd2 = (None, ?wd2\<lparr>calls := calls ?wd2 @ e3\<rparr>)"
    and m3: "map fst e3 = dialog_calls wins pid" by blast
  let ?wd3 = "?wd2\<lparr>calls := calls ?wd2 @ e3\<rparr>"
  let ?e4 = "map (\<lambda>c. (c, None)) (thread_calls (timer_thread eng))"
  let ?wd4 = "?wd3\<lparr>calls := calls ?wd3 @ ?e4\<rparr>"
  let ?wd5 = "?wd4\<lparr>calls := calls ?wd4 @ [(NatDisconnect, None)]\<rparr>"
  have s5: "ext_call orc NatDisconnect ?wd4 = (None, ?wd5)"
    using q by (rule quiet_call) simp
  have run: "disconnect orc gs wins pid (eng, wd) = (Inr (), eng\<lparr>timer_thread := None\<rparr>, ?wd5)"
  proof (cases "timer_thread eng")
    case None
    have w4: "?wd4 = ?wd3" using None by (simp add: thread_calls_def)
    have e: "eng\<lparr>timer_thread := None\<rparr> = eng" using None by simp
    show ?thesis
      using s1 s2 s3 s5 None unfolding e w4 by (simp add: disconnect_def)
  next
    case (Some tt)
    from quiet_thread_stop [OF q, of tt ?wd3] obtain tt' where
      s4: "TimerThread_stop orc (tt, ?wd3) =
             (Inr (), tt', ?wd3\<lparr>calls := calls ?wd3 @ map (\<lambda>c. (c, None)) (thread_calls (Some tt))\<rparr>)"
      by blast
    show ?thesis
      using s1 s2 s3 s4 s5 Some by (simp add: disconnect_def)
  qed
  let ?evs = "?e1 @ [(GetMatchingWindows target_title, None)] @ e3 @ ?e4 @ [(NatDisconnect, None)]"
  have w5: "?wd5 = wd\<lparr>calls := calls wd @ ?evs\<rparr>" by simp
  have m: "map fst ?evs = disconnect_calls gs wins pid (timer_thread eng)"
    using m3 by (simp add: disconnect_calls_def comp_def)
  show ?thesis using run m unfolding w5 by blast
qed

text \<open>
  Claim C7. Let every outside call return, but that closing a window may raise
  \<^verbatim>\<open>pywintypes.error\<close>. Then \<^verbatim>\<open>disconnect\<close> returns from every state of the engine, with
  or without a keep-alive thread. Its calls are, in this order: the unloading of every
  grammar, the request for the windows and the closing of the first visible window of the
  current process, the stopping of the keep-alive thread if there is one, and
  \<^verbatim>\<open>natDisconnect\<close>. It leaves no keep-alive thread, an engine that never had one is not
  asked to stop one, and a second call right after the first returns as well, with the
  same calls but those of the thread.
\<close>

theorem disconnect_safe:
  assumes q: "\<forall>t c e. orc t c = Some e \<longrightarrow> (\<exists>k m. c = WindowClose k \<and> e = WinError m)"
    and first: "disconnect orc gs wins pid (eng, wd) = (res, eng', wd')"
    and second: "disconnect orc gs2 wins2 pid (eng', wd') = (res2, eng'', wd'')"
  shows "res = Inr () \<and> timer_thread eng' = None \<and>
         map fst (new_calls wd wd') =
           map GrammarUnload gs @ [GetMatchingWindows target_title] @ dialog_calls wins pid
             @ thread_calls (timer_thread eng) @ [NatDisconnect] \<and>
         (timer_thread eng = None \<longrightarrow>
            StopEventSet \<notin> set (map fst (new_calls wd wd')) \<and>
            TimerStop \<notin> set (map fst (new_calls wd wd'))) \<and>
         res2 = Inr () \<and> timer_thread eng'' = None \<and>
         map fst (new_calls wd' wd'') =
           map GrammarUnload gs2 @ [GetMatchingWindows target_title] @ dialog_calls wins2 pid
             @ [NatDisconnect]"
proof -
  from disconnect_quiet [OF q, of gs wins pid eng wd] first obtain evs where
    a: "res = Inr ()" "eng' = eng\<lparr>timer_thread := None\<rparr>" "wd' = wd\<lparr>calls := calls wd @ evs\<rparr>"
       "map fst evs = disconnect_calls gs wins pid (timer_thread eng)"
    by auto
  from disconnect_quiet [OF q, of gs2 wins2 pid eng' wd'] second obtain evs2 where
    b: "res2 = Inr ()" "eng'' = eng'\<lparr>timer_thread := None\<rparr>" "wd'' = wd'\<lparr>calls := calls wd' @ evs2\<rparr>"
       "map fst evs2 = disconnect_calls gs2 wins2 pid (timer_thread eng')"
    by auto
  have n1: "new_calls wd wd' = evs" using a(3) by (simp add: new_calls_def)
  have n2: "new_calls wd' wd'' = evs2" using b(3) by (simp add: new_calls_def)
  have t: "timer_thread eng' = None" using a(2) by simp
  have c1: "map fst (new_calls wd wd') =
           map GrammarUnload gs @ [GetMatchingWindows target_title] @ dialog_calls wins pid
             @ thread_calls (timer_thread eng) @ [NatDisconnect]"
    unfolding n1 a(4) by (simp add: disconnect_calls_def)
  have c2: "map fst (new_calls wd' wd'') =
           map GrammarUnload gs2 @ [GetMatchingWindows target_title] @ dialog_calls wins2 pid
             @ [NatDisconnect]"
    unfolding n2 b(4) t by (simp add: disconnect_calls_def thread_calls_def)
  have c3: "timer_thread eng = None \<longrightarrow>
            StopEventSet \<notin> set (map fst (new_calls wd wd')) \<and>
            TimerStop \<notin> set (map fst (new_calls wd wd'))"
    unfolding c1 by (auto simp add: thread_calls_def dialog_calls_def target_title_def
                      split: option.splits)
  have t2: "timer_thread eng'' = None" using b(2) by simp
  show ?thesis using a(1) t c1 c3 b(1) t2 c2 by (intro conjI)
qed

theorem disconnect_safe_witness:
  "disconnect env_close_fails [''g''] example_windows 42 (running_engine, example_world) =
     (Inr (), running_engine\<lparr>timer_thread := None\<rparr>,
      \<lparr>calls = [(GrammarUnload ''g'', None), (GetMatchingWindows target_title, None),
                (WindowClose 5, Some (WinError ''invalid window handle'')),
                (StopEventSet, None), (TimerStop, None), (NatDisconnect, None)],
       log = []\<rparr>) \<and>
   fst (disconnect env_close_fails [] [] 42
          (snd (disconnect env_close_fails [''g''] example_windows 42
                  (running_engine, example_world)))) = Inr () \<and>
   fst (disconnect env_close_fails [] [] 42 (example_engine, example_world)) = Inr ()"
proof -
  let ?wd' = "\<lparr>calls = [(GrammarUnload ''g'', None), (GetMatchingWindows target_title, None),
                (WindowClose 5, Some (WinError ''invalid window handle'')),
                (StopEventSet, None), (TimerStop, None), (NatDisconnect, None)],
       log = []\<rparr>"
  let ?eng' = "running_engine\<lparr>timer_thread := None\<rparr>"
  have q: "\<forall>t c e. env_close_fails t c = Some e \<longrightarrow> (\<exists>k m. c = WindowClose k \<and> e = WinError m)"
    by (auto simp add: env_close_fails_def split: call.splits)
  have first: "disconnect env_close_fails [''g''] example_windows 42 (running_engine, example_world) =
     (Inr (), ?eng', ?wd')"
    by code_simp
  have pair: "\<And>s. disconnect env_close_fails [] [] 42 s =
     (fst (disconnect env_close_fails [] [] 42 s), fst (snd (disconnect env_close_fails [] [] 42 s)),
      snd (snd (disconnect env_close_fails [] [] 42 s)))"
    by simp
  have second: "fst (disconnect env_close_fails [] [] 42 (?eng', ?wd')) = Inr ()"
    using disconnect_safe [OF q first pair] by simp
  have first0: "disconnect env_close_fails [] [] 42 (example_engine, example_world) =
     (fst (disconnect env_close_fails [] [] 42 (example_engine, example_world)),
      fst (snd (disconnect env_close_fails [] [] 42 (example_engine, example_world))),
      snd (snd (disconnect env_close_fails [] [] 42 (example_engine, example_world))))"
    by simp
  have never: "fst (disconnect env_close_fails [] [] 42 (example_engine, example_world)) = Inr ()"
    using disconnect_safe [OF q first0 pair] by simp
  show ?thesis using first second never by simp
qed

subsection \<open>Mimic\<close>

lemma split_from_blank:
  "\<forall>c \<in> set s. ws c \<Longrightarrow> split_from ws cur s = (if cur = [] then [] else [cur])"
  by (induction s arbitrary: cur) simp_all

lemma split_from_concat:
  "concat (split_from ws cur s) = cur @ filter (\<lambda>c. \<not> ws c) s"
  by (induction s arbitrary: cur) simp_all

lemma split_from_pieces:
  "\<forall>c \<in> set cur. \<not> ws c \<Longrightarrow> p \<in> set (split_from ws cur s) \<Longrightarrow>
   p \<noteq> [] \<and> (\<forall>c \<in> set p. \<not> ws c)"
proof (induction s arbitrary: cur)
  case Nil
  then show ?case by (auto split: if_splits)
next
  case (Cons c s)
  show ?case
  proof (cases "ws c")
    case True
    show ?thesis
    proof (cases "cur = []")
      case True
      with \<open>ws c\<close> Cons.prems(2) have "p \<in> set (split_from ws [] s)" by simp
      then show ?thesis using Cons.IH [of "[]"] by simp
    next
      case False
      with \<open>ws c\<close> Cons.prems(2) have "p = cur \<or> p \<in> set (split_from ws [] s)" by simp
      then show ?thesis using Cons.IH [of "[]"] Cons.prems(1) False by auto
    qed
  next
    case False
    with Cons.prems(2) have "p \<in> set (split_from ws (cur @ [c]) s)" by simp
    moreover have "\<forall>x \<in> set (cur @ [c]). \<not> ws x" using Cons.prems(1) False by simp
    ultimately show ?thesis using Cons.IH [of "cur @ [c]"] by blast
  qed
qed

lemma py_split_blank: "\<forall>c \<in> set s. ws c \<Longrightarrow> py_split ws s = []"
  by (simp add: py_split_def split_from_blank)

lemma py_split_concat: "concat (py_split ws s) = filter (\<lambda>c. \<not> ws c) s"
  by (simp add: py_split_def split_from_concat)

lemma py_split_pieces:
  "p \<in> set (py_split ws s) \<Longrightarrow> p \<noteq> [] \<and> (\<forall>c \<in> set p. \<not> ws c)"
  unfolding py_split_def by (rule split_from_pieces) simp_all

lemma py_split_nonempty: "\<exists>c \<in> set s. \<not> ws c \<Longrightarrow> py_split ws s \<noteq> []"
proof
  assume a: "\<exists>c \<in> set s. \<not> ws c" and e: "py_split ws s = []"
  from e have "filter (\<lambda>c. \<not> ws c) s = []" using py_split_concat [of ws s] by simp
  with a show False by (auto simp: filter_empty_conv)
qed

lemma split_words_string:
  "string_types py2 tok \<Longrightarrow>
   split_words ws py2 (Single tok) = Seq (map (same_kind tok) (py_split ws (chars tok)))"
  by (cases tok) simp_all

lemma encode_words_length: "encode_words enc xs = Inr ys \<Longrightarrow> length ys = length xs"
proof (induction xs arbitrary: ys)
  case Nil
  then show ?case by simp
next
  case (Cons x xs)
  then show ?case
    by (cases x) (auto split: option.splits sum.splits)
qed

lemma prepare_empty: "prepare py2 enc (Seq []) = Inl (TypeError ''empty list or string'')"
  by (simp add: prepare_def)

lemma prepare_words:
  "xs \<noteq> [] \<Longrightarrow>
   prepare py2 enc (Seq xs) = (if py2 then encode_words enc xs else Inr xs)"
proof (cases py2)
  case False
  assume "xs \<noteq> []"
  then show ?thesis using False by (simp add: prepare_def)
next
  case True
  assume ne: "xs \<noteq> []"
  show ?thesis
  proof (cases "encode_words enc xs")
    case (Inl e)
    then show ?thesis using True by (simp add: prepare_def)
  next
    case (Inr ys)
    from encode_words_length [OF Inr] ne have "ys \<noteq> []" by auto
    then show ?thesis using True Inr by (simp add: prepare_def)
  qed
qed

text \<open>
  Claim C4. \<^verbatim>\<open>mimic\<close> raises \<^verbatim>\<open>MimicFailure\<close>, before any native call, when its input
  is a string with no character but whitespace (the empty string among them) or an empty
  sequence. When the words have been prepared, the one native call it makes is
  \<^verbatim>\<open>recognitionMimic\<close> on them, and when that call raises \<^verbatim>\<open>MimicFailed\<close> the method
  raises \<^verbatim>\<open>MimicFailure\<close>. A string with a character that is not whitespace is split
  into its words: they are at least one, none is empty or holds whitespace, together they
  are the characters of the string that are not whitespace, and they are the prepared
  words (under Python 2, after the text words have been encoded).
\<close>

theorem mimic_failures:
  "(string_types legacy tok \<and> (\<forall>c \<in> set (chars tok). ws c) \<longrightarrow>
      mimic orc ws legacy enc repr (Single tok) wd =
        (Inl (MimicFailure
               (invalid_input (repr (Seq [])) (TypeError ''empty list or string''))), wd)) \<and>
   mimic orc ws legacy enc repr (Seq []) wd =
     (Inl (MimicFailure
            (invalid_input (repr (Seq [])) (TypeError ''empty list or string''))), wd) \<and>
   (prepare legacy enc (split_words ws legacy inp) = Inr ps \<longrightarrow>
      new_calls wd (snd (mimic orc ws legacy enc repr inp wd)) =
        [(RecognitionMimic ps, orc (calls wd) (RecognitionMimic ps))] \<and>
      (\<forall>m. orc (calls wd) (RecognitionMimic ps) = Some (MimicFailed m) \<longrightarrow>
           fst (mimic orc ws legacy enc repr inp wd) =
             Inl (MimicFailure (no_matching_rule (repr (Seq ps)))))) \<and>
   (string_types legacy tok \<and> (\<exists>c \<in> set (chars tok). \<not> ws c) \<longrightarrow>
      py_split ws (chars tok) \<noteq> [] \<and>
      concat (py_split ws (chars tok)) = filter (\<lambda>c. \<not> ws c) (chars tok) \<and>
      (\<forall>p \<in> set (py_split ws (chars tok)). p \<noteq> [] \<and> (\<forall>c \<in> set p. \<not> ws c)) \<and>
      prepare legacy enc (split_words ws legacy (Single tok)) =
        (if legacy then encode_words enc (map (same_kind tok) (py_split ws (chars tok)))
         else Inr (map (same_kind tok) (py_split ws (chars tok)))))"
proof (intro conjI impI)
  assume a: "string_types legacy tok \<and> (\<forall>c \<in> set (chars tok). ws c)"
  then have "split_words ws legacy (Single tok) = Seq []"
    using split_words_string [of legacy tok ws] py_split_blank [of "chars tok" ws] by simp
  then show "mimic orc ws legacy enc repr (Single tok) wd =
        (Inl (MimicFailure
               (invalid_input (repr (Seq [])) (TypeError ''empty list or string''))), wd)"
    by (simp add: mimic_def prepare_empty)
next
  show "mimic orc ws legacy enc repr (Seq []) wd =
     (Inl (MimicFailure
            (invalid_input (repr (Seq [])) (TypeError ''empty list or string''))), wd)"
    by (simp add: mimic_def prepare_empty)
next
  assume p: "prepare legacy enc (split_words ws legacy inp) = Inr ps"
  show "new_calls wd (snd (mimic orc ws legacy enc repr inp wd)) =
        [(RecognitionMimic ps, orc (calls wd) (RecognitionMimic ps))]"
    using p by (simp add: mimic_def ext_call_def new_calls_def split: option.splits exn.splits)
  show "\<forall>m. orc (calls wd) (RecognitionMimic ps) = Some (MimicFailed m) \<longrightarrow>
           fst (mimic orc ws legacy enc repr inp wd) =
             Inl (MimicFailure (no_matching_rule (repr (Seq ps))))"
    using p by (simp add: mimic_def ext_call_def)
next
  assume a: "string_types legacy tok \<and> (\<exists>c \<in> set (chars tok). \<not> ws c)"
  then have ne: "py_split ws (chars tok) \<noteq> []" by (simp add: py_split_nonempty)
  show "py_split ws (chars tok) \<noteq> []" by (rule ne)
  show "concat (py_split ws (chars tok)) = filter (\<lambda>c. \<not> ws c) (chars tok)"
    by (rule py_split_concat)
  show "\<forall>p \<in> set (py_split ws (chars tok)). p \<noteq> [] \<and> (\<forall>c \<in> set p. \<not> ws c)"
    using py_split_pieces by blast
  have "map (same_kind tok) (py_split ws (chars tok)) \<noteq> []" using ne by simp
  then show "prepare legacy enc (split_words ws legacy (Single tok)) =
        (if legacy then encode_words enc (map (same_kind tok) (py_split ws (chars tok)))
         else Inr (map (same_kind tok) (py_split ws (chars tok))))"
    using a split_words_string [of legacy tok ws] prepare_words by simp
qed

theorem mimic_failures_witness:
  "mimic env_no_rule blank False Some example_repr (Single (Text '''')) example_world =
     (Inl (MimicFailure ''Invalid mimic input words: empty list or string.''), example_world) \<and>
   mimic env_no_rule blank False Some example_repr (Single (Text ''   '')) example_world =
     (Inl (MimicFailure ''Invalid mimic input words: empty list or string.''), example_world) \<and>
   mimic env_no_rule blank False Some example_repr (Seq []) example_world =
     (Inl (MimicFailure ''Invalid mimic input words: empty list or string.''), example_world) \<and>
   py_split blank '' hello  world '' = [''hello'', ''world''] \<and>
   prepare False Some (split_words blank False (Single (Text '' hello  world ''))) =
     Inr [Text ''hello'', Text ''world''] \<and>
   new_calls example_world
     (snd (mimic env_no_rule blank False Some example_repr (Single (Text '' hello  world ''))
             example_world)) =
     [(RecognitionMimic [Text ''hello'', Text ''world''], Some (MimicFailed ''no rule''))] \<and>
   fst (mimic env_no_rule blank False Some example_repr (Single (Text '' hello  world ''))
          example_world) =
     Inl (MimicFailure ''No matching rule found for words words.'')"
proof -
  note T = mimic_failures [where orc = env_no_rule and ws = blank and legacy = False and enc = Some
             and repr = example_repr and wd = example_world]
  have msg: "invalid_input (example_repr (Seq [])) (TypeError ''empty list or string'') =
               ''Invalid mimic input words: empty list or string.''"
    by (simp add: invalid_input_def example_repr_def)
  have e0: "string_types False (Text '''') \<and> (\<forall>c \<in> set (chars (Text '''')). blank c)" by simp
  have e1: "string_types False (Text ''   '') \<and> (\<forall>c \<in> set (chars (Text ''   '')). blank c)"
    by (simp add: blank_def)
  have p0: "mimic env_no_rule blank False Some example_repr (Single (Text '''')) example_world =
     (Inl (MimicFailure ''Invalid mimic input words: empty list or string.''), example_world)"
    using T [where tok = "Text ''''", THEN conjunct1, THEN mp, OF e0] unfolding msg .
  have p1: "mimic env_no_rule blank False Some example_repr (Single (Text ''   '')) example_world =
     (Inl (MimicFailure ''Invalid mimic input words: empty list or string.''), example_world)"
    using T [where tok = "Text ''   ''", THEN conjunct1, THEN mp, OF e1] unfolding msg .
  have p2: "mimic env_no_rule blank False Some example_repr (Seq []) example_world =
     (Inl (MimicFailure ''Invalid mimic input words: empty list or string.''), example_world)"
    using T [THEN conjunct2, THEN conjunct1] unfolding msg .
  have sp: "py_split blank '' hello  world '' = [''hello'', ''world'']"
    by (simp add: py_split_def blank_def)
  have e3: "string_types False (Text '' hello  world '') \<and>
            (\<exists>c \<in> set (chars (Text '' hello  world '')). \<not> blank c)"
    by (simp add: blank_def)
  have pr: "prepare False Some (split_words blank False (Single (Text '' hello  world ''))) =
     Inr [Text ''hello'', Text ''world'']"
    using T [where tok = "Text '' hello  world ''", THEN conjunct2, THEN conjunct2, THEN conjunct2,
             THEN mp, OF e3, THEN conjunct2, THEN conjunct2, THEN conjunct2]
    by (simp add: sp)
  have o: "env_no_rule (calls example_world) (RecognitionMimic [Text ''hello'', Text ''world'']) =
             Some (MimicFailed ''no rule'')"
    by (simp add: env_no_rule_def)
  note C = T [where inp = "Single (Text '' hello  world '')" and ps = "[Text ''hello'', Text ''world'']",
              THEN conjunct2, THEN conjunct2, THEN conjunct1, THEN mp, OF pr]
  have p3: "new_calls example_world
     (snd (mimic env_no_rule blank False Some example_repr (Single (Text '' hello  world ''))
             example_world)) =
     [(RecognitionMimic [Text ''hello'', Text ''world''], Some (MimicFailed ''no rule''))]"
    using C [THEN conjunct1] unfolding o .
  have p4: "fst (mimic env_no_rule blank False Some example_repr (Single (Text '' hello  world ''))
          example_world) =
     Inl (MimicFailure ''No matching rule found for words words.'')"
    using C [THEN conjunct2, THEN spec, THEN mp, OF o]
    by (simp add: no_matching_rule_def example_repr_def)
  show ?thesis using p0 p1 p2 sp pr p3 p4 by (intro conjI)
qed

subsection \<open>Retaining audio\<close>

lemma capture_effect:
  "\<exists>evs. calls (snd (capture orc pf wave words rule_name w d wd)) = calls wd @ evs \<and>
         log (snd (capture orc pf wave words rule_name w d wd)) = log wd \<and>
         (raised evs \<longleftrightarrow> fst (capture orc pf wave words rule_name w d wd) \<noteq> None) \<and>
         (wave = [] \<longrightarrow> evs = [(GetWave, orc (calls wd) GetWave)])"
  by (auto simp add: capture_def ext_call_def Let_def raised_def split: option.splits)

lemma retain_audio_returns:
  "fst (retain_audio orc pf wave words rule_name w eng wd) = Inr ()"
  by (simp add: retain_audio_def split: option.splits prod.splits)

lemma retain_audio_cases:
  "retain_audio orc pf wave words rule_name w eng wd =
     (case retain_dir eng of
        None \<Rightarrow> (Inr (), wd)
      | Some d \<Rightarrow>
          if d = [] then (Inr (), wd)
          else if \<not> isdir pf d then (Inr (), log_msg Warning (not_a_directory d) wd)
          else (Inr (),
                case fst (capture orc pf wave words rule_name w d wd) of
                  None \<Rightarrow> snd (capture orc pf wave words rule_name w d wd)
                | Some e \<Rightarrow> log_msg Exception ''Exception retaining audio''
                              (snd (capture orc pf wave words rule_name w d wd))))"
  by (auto simp add: retain_audio_def split: option.splits prod.splits)

text \<open>
  Claim C6. \<^verbatim>\<open>_retain_audio\<close> never raises, whatever the platform and the outside calls
  do. For a retain directory that is set to a path that is not a directory it logs the
  warning and makes no outside call, so nothing is written. When a call of the capture
  (reading the wave data, writing the audio file, appending the record) raises, the
  exception is logged and the method returns. \<^verbatim>\<open>_process_final_rule\<close> therefore always
  goes on to the method of the base class, in the world the retention has left.
\<close>

theorem retain_audio_contained:
  "fst (retain_audio orc pf wave words rule_name w eng wd) = Inr () \<and>
   (retain_dir eng = Some d \<and> d \<noteq> [] \<and> \<not> isdir pf d \<longrightarrow>
      retain_audio orc pf wave words rule_name w eng wd =
        (Inr (), log_msg Warning (not_a_directory d) wd)) \<and>
   (raised (new_calls wd (snd (retain_audio orc pf wave words rule_name w eng wd))) \<longrightarrow>
      log (snd (retain_audio orc pf wave words rule_name w eng wd)) =
        log wd @ [(Exception, ''Exception retaining audio'')]) \<and>
   process_final_rule orc pf wave words rule_name base w eng wd =
     base (snd (retain_audio orc pf wave words rule_name w eng wd))"
proof (intro conjI impI)
  show "fst (retain_audio orc pf wave words rule_name w eng wd) = Inr ()"
    by (rule retain_audio_returns)
next
  assume "retain_dir eng = Some d \<and> d \<noteq> [] \<and> \<not> isdir pf d"
  then show "retain_audio orc pf wave words rule_name w eng wd =
        (Inr (), log_msg Warning (not_a_directory d) wd)"
    by (simp add: retain_audio_def)
next
  let ?wd' = "snd (retain_audio orc pf wave words rule_name w eng wd)"
  assume r: "raised (new_calls wd ?wd')"
  show "log ?wd' = log wd @ [(Exception, ''Exception retaining audio'')]"
  proof (cases "retain_dir eng")
    case None
    then have "new_calls wd ?wd' = []" by (simp add: retain_audio_cases)
    with r show ?thesis by (simp add: raised_def)
  next
    case (Some d)
    show ?thesis
    proof (cases "d \<noteq> [] \<and> isdir pf d")
      case False
      then have "new_calls wd ?wd' = []"
        using Some by (auto simp add: retain_audio_cases new_calls_def)
      with r show ?thesis by (simp add: raised_def)
    next
      case True
      let ?c = "capture orc pf wave words rule_name w d wd"
      from capture_effect [of orc pf wave words rule_name w d wd] obtain evs where
        e: "calls (snd ?c) = calls wd @ evs" "log (snd ?c) = log wd"
           "raised evs \<longleftrightarrow> fst ?c \<noteq> None"
        by blast
      have "calls ?wd' = calls wd @ evs"
        using Some True e(1) by (simp add: retain_audio_cases split: option.splits)
      then have "new_calls wd ?wd' = evs" by (rule new_calls_append)
      with r e(3) obtain x where x: "fst ?c = Some x" by auto
      show ?thesis using Some True x e(2) by (simp add: retain_audio_cases)
    qed
  qed
next
  show "process_final_rule orc pf wave words rule_name base w eng wd =
     base (snd (retain_audio orc pf wave words rule_name w eng wd))"
  proof -
    obtain r wd1 where a: "retain_audio orc pf wave words rule_name w eng wd = (r, wd1)"
      by (cases "retain_audio orc pf wave words rule_name w eng wd") auto
    have "r = Inr ()"
      using retain_audio_returns [of orc pf wave words rule_name w eng wd] a by simp
    then show ?thesis using a by (simp add: process_final_rule_def)
  qed
qed

theorem retain_audio_contained_witness:
  "retain_audio env_disk_full example_platform [1, 2] [''hello''] ''r'' example_wrapper
       (retaining_engine ''missing'') example_world =
     (Inr (), example_world\<lparr>log := [(Warning, not_a_directory ''missing'')]\<rparr>) \<and>
   raised (new_calls example_world
            (snd (retain_audio env_disk_full example_platform [1, 2] [''hello''] ''r''
                    example_wrapper (retaining_engine ''retain'') example_world))) \<and>
   log (snd (retain_audio env_disk_full example_platform [1, 2] [''hello''] ''r''
               example_wrapper (retaining_engine ''retain'') example_world)) =
     [(Exception, ''Exception retaining audio'')] \<and>
   process_final_rule env_disk_full example_platform [1, 2] [''hello''] ''r'' example_base
       example_wrapper (retaining_engine ''retain'') example_world =
     (Inr (),
      \<lparr>calls = [(GetWave, None),
                (WriteWav ''retain/retain_2024-01-01_00-00-00_000000.wav'' [1, 2],
                 Some (OtherError ''No space left on device''))],
       log = [(Exception, ''Exception retaining audio''), (Debug, ''dispatched'')]\<rparr>)"
proof -
  note T = retain_audio_contained [where orc = env_disk_full and pf = example_platform
             and wave = "[1, 2]" and words = "[''hello'']" and rule_name = "''r''"
             and w = example_wrapper and wd = example_world and base = example_base]
  have h1: "retain_dir (retaining_engine ''missing'') = Some ''missing'' \<and> ''missing'' \<noteq> [] \<and>
            \<not> isdir example_platform ''missing''"
    by (simp add: retaining_engine_def example_platform_def)
  have p1: "retain_audio env_disk_full example_platform [1, 2] [''hello''] ''r'' example_wrapper
       (retaining_engine ''missing'') example_world =
     (Inr (), example_world\<lparr>log := [(Warning, not_a_directory ''missing'')]\<rparr>)"
    using T [where eng = "retaining_engine ''missing''" and d = "''missing''",
             THEN conjunct2, THEN conjunct1, THEN mp, OF h1]
    by (simp add: log_msg_def example_world_def)
  let ?run = "retain_audio env_disk_full example_platform [1, 2] [''hello''] ''r''
                    example_wrapper (retaining_engine ''retain'') example_world"
  have run: "?run =
     (Inr (),
      \<lparr>calls = [(GetWave, None),
                (WriteWav ''retain/retain_2024-01-01_00-00-00_000000.wav'' [1, 2],
                 Some (OtherError ''No space left on device''))],
       log = [(Exception, ''Exception retaining audio'')]\<rparr>)"
    by (simp add: retain_audio_def capture_def ext_call_def Let_def env_disk_full_def
          example_platform_def retaining_engine_def example_world_def log_msg_def)
  have h2: "raised (new_calls example_world (snd ?run))"
    unfolding run by (simp add: raised_def new_calls_def example_world_def)
  have p2: "log (snd ?run) = [(Exception, ''Exception retaining audio'')]"
    using T [where eng = "retaining_engine ''retain''",
             THEN conjunct2, THEN conjunct2, THEN conjunct1, THEN mp, OF h2]
    by (simp add: example_world_def)
  have p3: "process_final_rule env_disk_full example_platform [1, 2] [''hello''] ''r'' example_base
       example_wrapper (retaining_engine ''retain'') example_world =
     (Inr (),
      \<lparr>calls = [(GetWave, None),
                (WriteWav ''retain/retain_2024-01-01_00-00-00_000000.wav'' [1, 2],
                 Some (OtherError ''No space left on device''))],
       log = [(Exception, ''Exception retaining audio''), (Debug, ''dispatched'')]\<rparr>)"
    using T [where eng = "retaining_engine ''retain''",
             THEN conjunct2, THEN conjunct2, THEN conjunct2]
    unfolding run by (simp add: example_base_def log_msg_def)
  show ?thesis using p1 h2 p2 p3 by (intro conjI)
qed

text \<open>
  Claim C10, with the configuration made explicit. With empty wave data \<^verbatim>\<open>_retain_audio\<close> makes no writing call,
  whatever the configuration. It logs nothing when the retain directory is unset, or
  empty, or an existing directory for which \<^verbatim>\<open>getWave\<close> returns. When the directory is
  set to a path that is not a directory, it logs the warning of that case, empty wave
  data or not, and \<^verbatim>\<open>getWave\<close> is not called.
\<close>

theorem retain_audio_empty_wave:
  "(\<forall>ev \<in> set (new_calls wd (snd (retain_audio orc pf [] words rule_name w eng wd))).
       \<not> is_write ev) \<and>
   (retain_dir eng = None \<or> retain_dir eng = Some [] \<or>
    (\<exists>d. retain_dir eng = Some d \<and> isdir pf d \<and> orc (calls wd) GetWave = None) \<longrightarrow>
      log (snd (retain_audio orc pf [] words rule_name w eng wd)) = log wd) \<and>
   (\<forall>d. retain_dir eng = Some d \<and> d \<noteq> [] \<and> \<not> isdir pf d \<longrightarrow>
      snd (retain_audio orc pf [] words rule_name w eng wd) =
        log_msg Warning (not_a_directory d) wd)"
proof (intro conjI)
  let ?wd' = "snd (retain_audio orc pf [] words rule_name w eng wd)"
  show "\<forall>ev \<in> set (new_calls wd ?wd'). \<not> is_write ev"
  proof (cases "retain_dir eng")
    case None
    then show ?thesis by (simp add: retain_audio_cases)
  next
    case (Some d)
    show ?thesis
    proof (cases "d \<noteq> [] \<and> isdir pf d")
      case False
      then show ?thesis using Some by (auto simp add: retain_audio_cases new_calls_def)
    next
      case True
      let ?c = "capture orc pf [] words rule_name w d wd"
      from capture_effect [of orc pf "[]" words rule_name w d wd] have
        e: "calls (snd ?c) = calls wd @ [(GetWave, orc (calls wd) GetWave)]"
        by auto
      have "calls ?wd' = calls wd @ [(GetWave, orc (calls wd) GetWave)]"
        using Some True e by (simp add: retain_audio_cases split: option.splits)
      then have "new_calls wd ?wd' = [(GetWave, orc (calls wd) GetWave)]"
        by (rule new_calls_append)
      then show ?thesis by simp
    qed
  qed
next
  let ?wd' = "snd (retain_audio orc pf [] words rule_name w eng wd)"
  show "retain_dir eng = None \<or> retain_dir eng = Some [] \<or>
    (\<exists>d. retain_dir eng = Some d \<and> isdir pf d \<and> orc (calls wd) GetWave = None) \<longrightarrow>
      log ?wd' = log wd"
  proof
    assume "retain_dir eng = None \<or> retain_dir eng = Some [] \<or>
      (\<exists>d. retain_dir eng = Some d \<and> isdir pf d \<and> orc (calls wd) GetWave = None)"
    then consider "retain_dir eng = None" | "retain_dir eng = Some []"
      | d where "retain_dir eng = Some d" "d \<noteq> []" "isdir pf d" "orc (calls wd) GetWave = None"
      by (cases "retain_dir eng") auto
    then show "log ?wd' = log wd"
    proof cases
      case 1
      then show ?thesis by (simp add: retain_audio_cases)
    next
      case 2
      then show ?thesis by (simp add: retain_audio_cases)
    next
      case 3
      then have "fst (capture orc pf [] words rule_name w d wd) = None"
        by (simp add: capture_def ext_call_def)
      moreover have "log (snd (capture orc pf [] words rule_name w d wd)) = log wd"
        using capture_effect [of orc pf "[]" words rule_name w d wd] by blast
      ultimately show ?thesis using 3 by (simp add: retain_audio_cases)
    qed
  qed
next
  show "\<forall>d. retain_dir eng = Some d \<and> d \<noteq> [] \<and> \<not> isdir pf d \<longrightarrow>
      snd (retain_audio orc pf [] words rule_name w eng wd) =
        log_msg Warning (not_a_directory d) wd"
    by (simp add: retain_audio_cases)
qed

theorem retain_audio_empty_wave_witness:
  "retain_audio env_quiet example_platform [] [''hello''] ''r'' example_wrapper
       (retaining_engine ''retain'') example_world =
     (Inr (), example_world\<lparr>calls := [(GetWave, None)]\<rparr>) \<and>
   log (snd (retain_audio env_quiet example_platform [] [''hello''] ''r'' example_wrapper
               (retaining_engine ''retain'') example_world)) = log example_world \<and>
   snd (retain_audio env_quiet example_platform [] [''hello''] ''r'' example_wrapper
          (retaining_engine ''missing'') example_world) =
     example_world\<lparr>log := [(Warning, not_a_directory ''missing'')]\<rparr>"
proof -
  note T = retain_audio_empty_wave [where orc = env_quiet and pf = example_platform
             and words = "[''hello'']" and rule_name = "''r''" and w = example_wrapper
             and wd = example_world]
  let ?run = "retain_audio env_quiet example_platform [] [''hello''] ''r'' example_wrapper
                (retaining_engine ''retain'') example_world"
  have run: "?run = (Inr (), example_world\<lparr>calls := [(GetWave, None)]\<rparr>)"
    by (simp add: retain_audio_def capture_def ext_call_def env_quiet_def
          example_platform_def retaining_engine_def example_world_def)
  have h: "retain_dir (retaining_engine ''retain'') = None \<or>
           retain_dir (retaining_engine ''retain'') = Some [] \<or>
           (\<exists>d. retain_dir (retaining_engine ''retain'') = Some d \<and> isdir example_platform d \<and>
                env_quiet (calls example_world) GetWave = None)"
    by (simp add: retaining_engine_def example_platform_def env_quiet_def)
  have p1: "log (snd ?run) = log example_world"
    using T [where eng = "retaining_engine ''retain''", THEN conjunct2, THEN conjunct1,
             THEN mp, OF h] .
  have h2: "retain_dir (retaining_engine ''missing'') = Some ''missing'' \<and> ''missing'' \<noteq> [] \<and>
            \<not> isdir example_platform ''missing''"
    by (simp add: retaining_engine_def example_platform_def)
  have p2: "snd (retain_audio env_quiet example_platform [] [''hello''] ''r'' example_wrapper
          (retaining_engine ''missing'') example_world) =
     example_world\<lparr>log := [(Warning, not_a_directory ''missing'')]\<rparr>"
    using T [where eng = "retaining_engine ''missing''", THEN conjunct2, THEN conjunct2,
             THEN spec, THEN mp, OF h2]
    by (simp add: log_msg_def example_world_def)
  have p0: "\<forall>ev \<in> set (new_calls example_world (snd ?run)). \<not> is_write ev"
    using T [where eng = "retaining_engine ''retain''", THEN conjunct1] .
  show ?thesis using run p1 p2 by (intro conjI)
qed

text \<open>
  Claim C10 as it was stated, that empty wave data means that nothing is logged, fails
  for a retain directory that does not exist: the warning is logged.
\<close>

theorem retain_audio_silent_counterexample:
  "log (snd (retain_audio env_quiet example_platform [] [''hello''] ''r'' example_wrapper
               (retaining_engine ''missing'') example_world)) =
     [(Warning, not_a_directory ''missing'')] \<and>
   log (snd (retain_audio env_quiet example_platform [] [''hello''] ''r'' example_wrapper
               (retaining_engine ''missing'') example_world)) \<noteq> log example_world"
  by (simp add: retain_audio_def retaining_engine_def example_platform_def log_msg_def
        example_world_def)

end
